theory Spec2Isabelle
  imports Main "HOL-Library.FSet" "HOL-Library.Char_ord" "HOL-Library.List_Lexorder"
    "HOL-Library.Sublist" "HOL-Library.Multiset"
begin

unbundle bit_operations_syntax

section \<open>Data model (internal/config/config.go, internal/ai/brain.go)\<close>

text \<open>
  Cards, players and locations are Go strings; the empty string is the code's marker for
  "none" (no disprover, no revealed card, nothing chosen). Strings are ordered bytewise
  lexicographically, as Go's \<^verbatim>\<open>sort.Strings\<close> orders them.
\<close>

datatype CardCategory = CategorySuspect | CategoryWeapon | CategoryRoom

datatype CardStatus = StatusMaybe | StatusYes | StatusNo

record GameConfig =
  Suspects :: "string list"
  Weapons :: "string list"
  Rooms :: "string list"
  AllCards :: "string list"
  CardToType :: "string \<rightharpoonup> CardCategory"

record UnresolvedSuggestion =
  Disprover :: string
  PossibleCards :: "string fset"

record StringDeque =
  elements :: "string list"
  maxSize :: nat

text \<open>
  The random source \<^verbatim>\<open>*rand.Rand\<close> is an object of the library \<^verbatim>\<open>math/rand\<close>,
  built on a \<^verbatim>\<open>Source\<close>. It is modelled as the sequence of the 63-bit numbers the
  source delivers, one for each call of \<^verbatim>\<open>Int63\<close>, and the position reached in it.
\<close>

record RandSource =
  draws :: "nat \<Rightarrow> nat"
  cursor :: nat

datatype Chooser = RandomChooser | DeterministicChooser

text \<open>
  The agent. The logger is an injected sink outside the agent's state and is not part of
  the record. Every constructor call in the repository hands the same \<^verbatim>\<open>*rand.Rand\<close>
  to the agent and to its \<^verbatim>\<open>RandomChooser\<close>, so the random chooser draws from the
  field \<open>rand\<close>.
\<close>

record AdvancedAIBrain =
  name :: string
  config :: GameConfig
  players :: "string list"
  hand :: "string fset"
  knowledge :: "string \<rightharpoonup> (string \<rightharpoonup> CardStatus)"
  unresolvedSuggestions :: "UnresolvedSuggestion list"
  recentSurgicalTargets :: StringDeque
  chooser :: Chooser
  rand :: RandSource

record TurnResolvedEvent =
  SuggesterName :: string
  Suggestion :: "CardCategory \<rightharpoonup> string"
  DisproverName :: string
  RevealedCard :: string

definition categories :: "CardCategory list" where
  "categories = [CategorySuspect, CategoryWeapon, CategoryRoom]"

fun CardListForCategory :: "GameConfig \<Rightarrow> CardCategory \<Rightarrow> string list" where
  "CardListForCategory c CategorySuspect = Suspects c"
| "CardListForCategory c CategoryWeapon = Weapons c"
| "CardListForCategory c CategoryRoom = Rooms c"

text \<open>
  Reading \<^verbatim>\<open>ai.knowledge[card][loc]\<close>: a missing row or a missing key reads as the zero
  value of \<^verbatim>\<open>CardStatus\<close>, which is \<^verbatim>\<open>StatusMaybe\<close>.
\<close>

definition cell :: "(string \<rightharpoonup> (string \<rightharpoonup> CardStatus)) \<Rightarrow> string \<Rightarrow> string \<Rightarrow> CardStatus" where
  "cell k c loc =
     (case k c of
        None \<Rightarrow> StatusMaybe
      | Some row \<Rightarrow> (case row loc of None \<Rightarrow> StatusMaybe | Some s \<Rightarrow> s))"

definition allLocations :: "AdvancedAIBrain \<Rightarrow> string list" where
  "allLocations ai = players ai @ [''solution'']"

section \<open>Knowledge grid\<close>

text \<open>
  \<^verbatim>\<open>_markCardLocation\<close>. The result \<open>None\<close> is the Go runtime panic "assignment to entry
  in nil map", raised by the first write when the card passes the catalog check but has no
  row in the grid.
\<close>

definition markCardLocation ::
  "AdvancedAIBrain \<Rightarrow> string \<Rightarrow> string \<Rightarrow> (bool \<times> AdvancedAIBrain) option" where
  "markCardLocation ai c location =
     (if CardToType (config ai) c = None then Some (False, ai)
      else if cell (knowledge ai) c location = StatusYes then Some (False, ai)
      else (case knowledge ai c of
              None \<Rightarrow> None
            | Some row \<Rightarrow>
                Some (True, ai\<lparr>knowledge := (knowledge ai)
                  (c \<mapsto> (fold (\<lambda>loc r. r(loc \<mapsto> StatusNo)) (allLocations ai) row)
                                (location \<mapsto> StatusYes))\<rparr>)))"

text \<open>\<^verbatim>\<open>Setup\<close>: every catalog card gets a row with every location at Maybe.\<close>

definition NewStringDeque :: "nat \<Rightarrow> StringDeque" where
  "NewStringDeque n = \<lparr>elements = [], maxSize = n\<rparr>"

definition initialRow :: "string list \<Rightarrow> (string \<rightharpoonup> CardStatus)" where
  "initialRow ps = (fold (\<lambda>pName r. r(pName \<mapsto> StatusMaybe)) ps Map.empty)(''solution'' \<mapsto> StatusMaybe)"

definition Setup ::
  "Chooser \<Rightarrow> RandSource \<Rightarrow> GameConfig \<Rightarrow> string list \<Rightarrow> string \<Rightarrow> AdvancedAIBrain" where
  "Setup ch r cfg playerNames myName =
     \<lparr>name = myName, config = cfg, players = playerNames, hand = {||},
      knowledge = fold (\<lambda>c k. k(c \<mapsto> initialRow playerNames)) (AllCards cfg) Map.empty,
      unresolvedSuggestions = [], recentSurgicalTargets = NewStringDeque 3,
      chooser = ch, rand = r\<rparr>"

section \<open>Deduction rules\<close>

text \<open>
  A loop whose body may panic: the fold stops at the first \<open>None\<close>.
\<close>

fun foldOpt :: "('a \<Rightarrow> 's \<Rightarrow> 's option) \<Rightarrow> 'a list \<Rightarrow> 's \<Rightarrow> 's option" where
  "foldOpt f [] s = Some s"
| "foldOpt f (x # xs) s = (case f x s of None \<Rightarrow> None | Some s' \<Rightarrow> foldOpt f xs s')"

definition mapKeys :: "string fset \<Rightarrow> string list" where
  "mapKeys m = sorted_list_of_fset m"

text \<open>
  The body of the loop of \<^verbatim>\<open>_pruneAndSolveMysteries\<close>, on the loop's variables
  \<^verbatim>\<open>changed\<close>, \<^verbatim>\<open>remainingMysteries\<close> and the agent.
\<close>

definition pruneStep ::
  "UnresolvedSuggestion \<Rightarrow> bool \<times> UnresolvedSuggestion list \<times> AdvancedAIBrain
     \<Rightarrow> (bool \<times> UnresolvedSuggestion list \<times> AdvancedAIBrain) option" where
  "pruneStep mystery st =
     (case st of (changed, remainingMysteries, ai) \<Rightarrow>
        (let prunedCards =
               ffilter (\<lambda>c. cell (knowledge ai) c (Disprover mystery) \<noteq> StatusNo)
                 (PossibleCards mystery);
             shrank = (fcard prunedCards < fcard (PossibleCards mystery));
             mystery1 = (if shrank then mystery\<lparr>PossibleCards := prunedCards\<rparr> else mystery);
             changed1 = (changed \<or> shrank)
         in if fcard prunedCards = 1 then
              (case markCardLocation ai (hd (mapKeys prunedCards)) (Disprover mystery) of
                 None \<Rightarrow> None
               | Some (b, ai') \<Rightarrow> Some (changed1 \<or> b, remainingMysteries, ai'))
            else if fcard prunedCards > 1 then
              Some (changed1, remainingMysteries @ [mystery1], ai)
            else Some (changed1, remainingMysteries, ai)))"

definition pruneAndSolveMysteries :: "AdvancedAIBrain \<Rightarrow> (bool \<times> AdvancedAIBrain) option" where
  "pruneAndSolveMysteries ai =
     (case foldOpt pruneStep (unresolvedSuggestions ai) (False, [], ai) of
        None \<Rightarrow> None
      | Some (changed, remainingMysteries, ai') \<Rightarrow>
          Some (changed \<or> length remainingMysteries < length (unresolvedSuggestions ai'),
                ai'\<lparr>unresolvedSuggestions := remainingMysteries\<rparr>))"

text \<open>
  \<^verbatim>\<open>_deduceCardLocationsByElimination\<close>: the scan of the locations of one card stops at
  the first Yes and collects the Maybe locations seen before it.
\<close>

fun scanLocations ::
  "(string \<rightharpoonup> (string \<rightharpoonup> CardStatus)) \<Rightarrow> string \<Rightarrow> string list \<Rightarrow> string list
     \<Rightarrow> bool \<times> string list" where
  "scanLocations k c [] maybes = (False, maybes)"
| "scanLocations k c (loc # locs) maybes =
     (if cell k c loc = StatusYes then (True, maybes)
      else if cell k c loc = StatusMaybe then scanLocations k c locs (maybes @ [loc])
      else scanLocations k c locs maybes)"

definition locationStep ::
  "string \<Rightarrow> bool \<times> AdvancedAIBrain \<Rightarrow> (bool \<times> AdvancedAIBrain) option" where
  "locationStep c st =
     (case st of (changed, ai) \<Rightarrow>
        (case scanLocations (knowledge ai) c (allLocations ai) [] of (isKnown, maybes) \<Rightarrow>
           if \<not> isKnown \<and> length maybes = 1 then
             (case markCardLocation ai c (hd maybes) of
                None \<Rightarrow> None
              | Some (b, ai') \<Rightarrow> Some (changed \<or> b, ai'))
           else Some (changed, ai)))"

definition deduceCardLocationsByElimination ::
  "AdvancedAIBrain \<Rightarrow> (bool \<times> AdvancedAIBrain) option" where
  "deduceCardLocationsByElimination ai = foldOpt locationStep (AllCards (config ai)) (False, ai)"

text \<open>\<^verbatim>\<open>_deduceSolutionByElimination\<close>.\<close>

definition solutionStep ::
  "CardCategory \<Rightarrow> bool \<times> AdvancedAIBrain \<Rightarrow> (bool \<times> AdvancedAIBrain) option" where
  "solutionStep cat st =
     (case st of (changed, ai) \<Rightarrow>
        (let cardList = CardListForCategory (config ai) cat;
             isSolved = list_ex (\<lambda>c. cell (knowledge ai) c ''solution'' = StatusYes) cardList
         in if isSolved then Some (changed, ai)
            else (let maybes = filter (\<lambda>c. cell (knowledge ai) c ''solution'' = StatusMaybe) cardList
                  in if length maybes = 1 then
                       (case markCardLocation ai (hd maybes) ''solution'' of
                          None \<Rightarrow> None
                        | Some (b, ai') \<Rightarrow> Some (changed \<or> b, ai'))
                     else Some (changed, ai))))"

definition deduceSolutionByElimination ::
  "AdvancedAIBrain \<Rightarrow> (bool \<times> AdvancedAIBrain) option" where
  "deduceSolutionByElimination ai = foldOpt solutionStep categories (False, ai)"

section \<open>Deduction loop\<close>

text \<open>One iteration of the loop of \<^verbatim>\<open>_runDeductionLoop\<close>: all three rules run, in order.\<close>

definition deductionPass :: "AdvancedAIBrain \<Rightarrow> (bool \<times> AdvancedAIBrain) option" where
  "deductionPass ai =
     (case pruneAndSolveMysteries ai of
        None \<Rightarrow> None
      | Some (c1, ai1) \<Rightarrow>
          (case deduceSolutionByElimination ai1 of
             None \<Rightarrow> None
           | Some (c2, ai2) \<Rightarrow>
               (case deduceCardLocationsByElimination ai2 of
                  None \<Rightarrow> None
                | Some (c3, ai3) \<Rightarrow> Some (c1 \<or> c2 \<or> c3, ai3))))"

text \<open>
  The loop \<^verbatim>\<open>for i := 0; i < 10; i++\<close>, from the counter value \<open>i\<close>. Besides the final
  agent it returns the number of passes that were run and whether the loop left through
  its \<^verbatim>\<open>break\<close> (a pass without change).
\<close>

function deductionLoopFrom ::
  "nat \<Rightarrow> AdvancedAIBrain \<Rightarrow> (nat \<times> bool \<times> AdvancedAIBrain) option" where
  "deductionLoopFrom i ai =
     (if i < 10 then
        (case deductionPass ai of
           None \<Rightarrow> None
         | Some (changed, ai') \<Rightarrow>
             if \<not> changed then Some (Suc i, True, ai') else deductionLoopFrom (Suc i) ai')
      else Some (i, False, ai))"
  by pat_completeness auto
termination
  by (relation "measure (\<lambda>(i, ai). 10 - i)") auto

declare deductionLoopFrom.simps [simp del]

definition runDeductionLoop :: "AdvancedAIBrain \<Rightarrow> AdvancedAIBrain option" where
  "runDeductionLoop ai = map_option (\<lambda>(n, conv, ai'). ai') (deductionLoopFrom 0 ai)"

section \<open>Decision surface\<close>

text \<open>\<^verbatim>\<open>ReceiveHand\<close>.\<close>

definition ReceiveHand :: "AdvancedAIBrain \<Rightarrow> string list \<Rightarrow> AdvancedAIBrain option" where
  "ReceiveHand ai cards =
     (case foldOpt (\<lambda>c a. map_option snd (markCardLocation (a\<lparr>hand := finsert c (hand a)\<rparr>) c (name a)))
             cards ai of
        None \<Rightarrow> None
      | Some ai' \<Rightarrow> runDeductionLoop ai')"

text \<open>
  The cards of a suggestion, a Go map from category to card. Go enumerates a map in an
  unspecified order; the model enumerates it in category order (the marks and the sets
  made from the cards do not depend on the order).
\<close>

definition suggestionCards :: "(CardCategory \<rightharpoonup> string) \<Rightarrow> string list" where
  "suggestionCards sug = List.map_filter sug categories"

text \<open>\<^verbatim>\<open>len\<close> of such a map: the number of categories that have an entry.\<close>

definition mapLen :: "(CardCategory \<rightharpoonup> string) \<Rightarrow> nat" where
  "mapLen sug = length (suggestionCards sug)"

text \<open>
  The body of the loop over the suggested cards when nobody disproved the agent's own
  suggestion.
\<close>

definition markUnlessHeld :: "string \<Rightarrow> AdvancedAIBrain \<Rightarrow> AdvancedAIBrain option" where
  "markUnlessHeld c a =
     (if c |\<in>| hand a then Some a else map_option snd (markCardLocation a c ''solution''))"

text \<open>
  \<^verbatim>\<open>processTurnEvent\<close>, in three parts: the branch for the direct reveal, which returns
  on its own; the state updates of the other branches; and the function itself.
\<close>

definition directReveal :: "AdvancedAIBrain \<Rightarrow> TurnResolvedEvent \<Rightarrow> AdvancedAIBrain option" where
  "directReveal ai event =
     (if DisproverName event \<noteq> '''' \<and> RevealedCard event \<noteq> '''' then
        map_option snd (markCardLocation ai (RevealedCard event) (DisproverName event))
      else Some ai)"

definition turnUpdates :: "AdvancedAIBrain \<Rightarrow> TurnResolvedEvent \<Rightarrow> AdvancedAIBrain option" where
  "turnUpdates ai event =
     (if name ai = SuggesterName event then
        (if DisproverName event \<noteq> '''' \<and> RevealedCard event \<noteq> '''' then
           map_option snd (markCardLocation ai (RevealedCard event) (DisproverName event))
         else if DisproverName event = '''' then
           foldOpt markUnlessHeld (suggestionCards (Suggestion event)) ai
         else Some ai)
      else if DisproverName event \<noteq> '''' \<and> DisproverName event \<noteq> name ai then
        Some (ai\<lparr>unresolvedSuggestions := unresolvedSuggestions ai @
                [\<lparr>Disprover = DisproverName event,
                  PossibleCards = fset_of_list (suggestionCards (Suggestion event))\<rparr>]\<rparr>)
      else Some ai)"

definition processTurnEvent :: "AdvancedAIBrain \<Rightarrow> TurnResolvedEvent \<Rightarrow> AdvancedAIBrain option" where
  "processTurnEvent ai event =
     (if SuggesterName event = ''Game Event'' then directReveal ai event
      else (case turnUpdates ai event of
              None \<Rightarrow> None
            | Some ai' \<Rightarrow> runDeductionLoop ai'))"

text \<open>
  \<^verbatim>\<open>HandleEvent\<close> switches on the event's type and ignores every type but
  \<^verbatim>\<open>TurnResolvedEvent\<close>.
\<close>

datatype Event = TurnResolved TurnResolvedEvent | OtherEvent

fun HandleEvent :: "AdvancedAIBrain \<Rightarrow> Event \<Rightarrow> AdvancedAIBrain option" where
  "HandleEvent ai (TurnResolved event) = processTurnEvent ai event"
| "HandleEvent ai OtherEvent = Some ai"

text \<open>\<^verbatim>\<open>ShouldAccuse\<close>: \<open>None\<close> is the \<^verbatim>\<open>nil\<close> map.\<close>

definition knownSolutionCard :: "AdvancedAIBrain \<Rightarrow> CardCategory \<Rightarrow> string" where
  "knownSolutionCard ai cat =
     (case List.find (\<lambda>c. cell (knowledge ai) c ''solution'' = StatusYes)
             (CardListForCategory (config ai) cat) of
        None \<Rightarrow> ''''
      | Some c \<Rightarrow> c)"

fun accuseLoop ::
  "AdvancedAIBrain \<Rightarrow> CardCategory list \<Rightarrow> (CardCategory \<rightharpoonup> string)
     \<Rightarrow> (CardCategory \<rightharpoonup> string) option" where
  "accuseLoop ai [] solution = Some solution"
| "accuseLoop ai (cat # cats) solution =
     (if knownSolutionCard ai cat \<noteq> '''' then
        accuseLoop ai cats (solution(cat \<mapsto> knownSolutionCard ai cat))
      else None)"

definition ShouldAccuse :: "AdvancedAIBrain \<Rightarrow> (CardCategory \<rightharpoonup> string) option" where
  "ShouldAccuse ai =
     (case accuseLoop ai categories Map.empty of
        None \<Rightarrow> None
      | Some solution \<Rightarrow> if mapLen solution = 3 then Some solution else None)"

section \<open>Chooser, random source and recent targets\<close>

text \<open>
  The raw draws of \<^verbatim>\<open>math/rand\<close>: \<^verbatim>\<open>Int63\<close> takes the next number of the source,
  \<^verbatim>\<open>Int31\<close> is \<^verbatim>\<open>Int63() >> 32\<close> and \<^verbatim>\<open>Uint32\<close> is \<^verbatim>\<open>Int63() >> 31\<close>.
\<close>

definition Int63 :: "RandSource \<Rightarrow> nat \<times> RandSource" where
  "Int63 r = (draws r (cursor r) mod 2 ^ 63, r\<lparr>cursor := Suc (cursor r)\<rparr>)"

definition Int31 :: "RandSource \<Rightarrow> nat \<times> RandSource" where
  "Int31 r = (case Int63 r of (x, r') \<Rightarrow> (x div 2 ^ 32, r'))"

definition Uint32 :: "RandSource \<Rightarrow> nat \<times> RandSource" where
  "Uint32 r = (case Int63 r of (x, r') \<Rightarrow> (x div 2 ^ 31, r'))"

text \<open>
  The bounded draws. \<^verbatim>\<open>Int31n\<close> and \<^verbatim>\<open>Int63n\<close> mask the raw number when the bound
  is a power of two (\<^verbatim>\<open>n&(n-1) == 0\<close>) and reduce it modulo the bound otherwise;
  \<^verbatim>\<open>int31n\<close>, the draw of \<^verbatim>\<open>Shuffle\<close>, multiplies the 32-bit number by the bound
  and returns the upper 32 bits of the product. To keep the result unbiased each of the
  three draws again while the raw number \<open>v\<close> lies in a short range: the conditions of
  these loops are the three predicates below. On an arbitrary sequence such a loop need
  not end. The sequence of the model is the sequence of the numbers the library keeps, so
  a bounded draw always returns; the library and the model agree on every source none of
  whose numbers is drawn again.
\<close>

definition Int31n_redraws :: "nat \<Rightarrow> nat \<Rightarrow> bool" where
  "Int31n_redraws n v \<longleftrightarrow> n AND (n - 1) \<noteq> 0 \<and> v > 2 ^ 31 - 1 - 2 ^ 31 mod n"

definition Int63n_redraws :: "nat \<Rightarrow> nat \<Rightarrow> bool" where
  "Int63n_redraws n v \<longleftrightarrow> n AND (n - 1) \<noteq> 0 \<and> v > 2 ^ 63 - 1 - 2 ^ 63 mod n"

definition int31n_redraws :: "nat \<Rightarrow> nat \<Rightarrow> bool" where
  "int31n_redraws n v \<longleftrightarrow>
     v * n mod 2 ^ 32 < n \<and> v * n mod 2 ^ 32 < (2 ^ 32 - n) mod n"

definition Int31n :: "RandSource \<Rightarrow> nat \<Rightarrow> nat \<times> RandSource" where
  "Int31n r n =
     (case Int31 r of
        (v, r') \<Rightarrow> (if n AND (n - 1) = 0 then v AND (n - 1) else v mod n, r'))"

definition Int63n :: "RandSource \<Rightarrow> nat \<Rightarrow> nat \<times> RandSource" where
  "Int63n r n =
     (case Int63 r of
        (v, r') \<Rightarrow> (if n AND (n - 1) = 0 then v AND (n - 1) else v mod n, r'))"

definition int31n :: "RandSource \<Rightarrow> nat \<Rightarrow> nat \<times> RandSource" where
  "int31n r n = (case Uint32 r of (v, r') \<Rightarrow> (v * n div 2 ^ 32, r'))"

text \<open>
  \<^verbatim>\<open>Intn(n)\<close> panics when \<open>n\<close> is not positive (\<open>None\<close>); it is \<^verbatim>\<open>Int31n\<close> for a
  bound that fits in 31 bits and \<^verbatim>\<open>Int63n\<close> otherwise.
\<close>

definition Intn :: "RandSource \<Rightarrow> nat \<Rightarrow> (nat \<times> RandSource) option" where
  "Intn r n =
     (if n = 0 then None
      else if n \<le> 2 ^ 31 - 1 then Some (Int31n r n)
      else Some (Int63n r n))"

text \<open>
  \<^verbatim>\<open>Choose\<close> returns the chosen card, the caller's slice as the call leaves it (the
  deterministic chooser sorts it in place) and the random source.
\<close>

fun Choose ::
  "Chooser \<Rightarrow> RandSource \<Rightarrow> string list \<Rightarrow> (string \<times> string list \<times> RandSource) option" where
  "Choose RandomChooser r cards =
     (if length cards = 0 then Some ('''', cards, r)
      else (case Intn r (length cards) of
              None \<Rightarrow> None
            | Some (i, r') \<Rightarrow> Some (cards ! i, cards, r')))"
| "Choose DeterministicChooser r cards =
     (if length cards = 0 then Some ('''', cards, r)
      else Some (hd (sort cards), sort cards, r))"

definition Push :: "StringDeque \<Rightarrow> string \<Rightarrow> StringDeque" where
  "Push d s =
     (let e = elements d @ [s]
      in if length e > maxSize d then d\<lparr>elements := tl e\<rparr> else d\<lparr>elements := e\<rparr>)"

definition Contains :: "StringDeque \<Rightarrow> string \<Rightarrow> bool" where
  "Contains d s = list_ex (\<lambda>e. e = s) (elements d)"

section \<open>Suggestion helpers and the Surgical Strike strategy\<close>

text \<open>
  \<^verbatim>\<open>ai.config.CardToType[card]\<close> read without the presence flag: a card outside the
  catalog reads as the zero value, \<^verbatim>\<open>CategorySuspect\<close>.
\<close>

definition categoryOf :: "GameConfig \<Rightarrow> string \<Rightarrow> CardCategory" where
  "categoryOf cfg c = (case CardToType cfg c of None \<Rightarrow> CategorySuspect | Some t \<Rightarrow> t)"

fun setCardListForCategory :: "GameConfig \<Rightarrow> CardCategory \<Rightarrow> string list \<Rightarrow> GameConfig" where
  "setCardListForCategory cfg CategorySuspect l = cfg\<lparr>Suspects := l\<rparr>"
| "setCardListForCategory cfg CategoryWeapon l = cfg\<lparr>Weapons := l\<rparr>"
| "setCardListForCategory cfg CategoryRoom l = cfg\<lparr>Rooms := l\<rparr>"

text \<open>
  \<^verbatim>\<open>_pickUnknownCard\<close>. In its last branch the chooser receives the catalog's own slice
  of the category, so what the chooser does to the slice is written back to the catalog.
\<close>

definition pickUnknownCard ::
  "AdvancedAIBrain \<Rightarrow> CardCategory \<Rightarrow> (string \<times> AdvancedAIBrain) option" where
  "pickUnknownCard ai cat =
     (let cardList = CardListForCategory (config ai) cat;
          maybes = filter (\<lambda>c. c |\<notin>| hand ai \<and> cell (knowledge ai) c ''solution'' = StatusMaybe)
                     cardList
      in if length maybes > 0 then
           (case Intn (rand ai) (length maybes) of
              None \<Rightarrow> None
            | Some (i, r') \<Rightarrow> Some (maybes ! i, ai\<lparr>rand := r'\<rparr>))
         else
           (let notMyCards = filter (\<lambda>c. c |\<notin>| hand ai) cardList
            in if length notMyCards > 0 then
                 (case Choose (chooser ai) (rand ai) notMyCards of
                    None \<Rightarrow> None
                  | Some (c, notMyCards', r') \<Rightarrow> Some (c, ai\<lparr>rand := r'\<rparr>))
               else
                 (case Choose (chooser ai) (rand ai) cardList of
                    None \<Rightarrow> None
                  | Some (c, cardList', r') \<Rightarrow>
                      Some (c, ai\<lparr>rand := r',
                                  config := setCardListForCategory (config ai) cat cardList'\<rparr>))))"

text \<open>\<^verbatim>\<open>Hand\<close>: the keys of the hand, sorted.\<close>

definition Hand :: "AdvancedAIBrain \<Rightarrow> string list" where
  "Hand ai = sorted_list_of_fset (hand ai)"

text \<open>
  \<^verbatim>\<open>Shuffle\<close> of the library, called with the length of the slice and the swap of two
  of its elements: for \<open>i\<close> from \<open>n - 1\<close> down to \<open>1\<close> it draws \<open>j\<close> below \<open>i + 1\<close>, with
  \<^verbatim>\<open>Int63n\<close> while \<open>i\<close> is above \<^verbatim>\<open>1<<31-1-1\<close> and with \<^verbatim>\<open>int31n\<close> from there on,
  and swaps the elements at \<open>i\<close> and \<open>j\<close>. The draw is below \<open>i + 1\<close>, so both indices
  are inside the slice.
\<close>

fun shuffleFrom :: "nat \<Rightarrow> RandSource \<Rightarrow> string list \<Rightarrow> string list \<times> RandSource" where
  "shuffleFrom 0 r xs = (xs, r)"
| "shuffleFrom (Suc i) r xs =
     (case (if Suc i > 2 ^ 31 - 1 - 1 then Int63n r (Suc (Suc i)) else int31n r (Suc (Suc i))) of
        (j, r') \<Rightarrow> shuffleFrom i r' (xs[Suc i := xs ! j, j := xs ! Suc i]))"

definition Shuffle :: "RandSource \<Rightarrow> string list \<Rightarrow> string list \<times> RandSource" where
  "Shuffle r xs = shuffleFrom (length xs - 1) r xs"

text \<open>\<^verbatim>\<open>_buildSuggestionAroundTarget\<close>: the loop over the shuffled hand, then the fill.\<close>

fun fillFromHand ::
  "GameConfig \<Rightarrow> string list \<Rightarrow> (CardCategory \<rightharpoonup> string) \<Rightarrow> (CardCategory \<rightharpoonup> string)" where
  "fillFromHand cfg [] suggestion = suggestion"
| "fillFromHand cfg (c # cs) suggestion =
     (if mapLen suggestion = 3 then suggestion
      else if suggestion (categoryOf cfg c) = None then
        fillFromHand cfg cs (suggestion(categoryOf cfg c \<mapsto> c))
      else fillFromHand cfg cs suggestion)"

definition fillStep ::
  "CardCategory \<Rightarrow> (CardCategory \<rightharpoonup> string) \<times> AdvancedAIBrain
     \<Rightarrow> ((CardCategory \<rightharpoonup> string) \<times> AdvancedAIBrain) option" where
  "fillStep cat st =
     (case st of (suggestion, ai) \<Rightarrow>
        if suggestion cat = None then
          (case pickUnknownCard ai cat of
             None \<Rightarrow> None
           | Some (c, ai') \<Rightarrow> Some (suggestion(cat \<mapsto> c), ai'))
        else Some (suggestion, ai))"

definition buildSuggestionAroundTarget ::
  "AdvancedAIBrain \<Rightarrow> string \<Rightarrow> ((CardCategory \<rightharpoonup> string) \<times> AdvancedAIBrain) option" where
  "buildSuggestionAroundTarget ai targetCard =
     (case Shuffle (rand ai) (Hand ai) of
        (myHandSlice, r') \<Rightarrow>
          (let suggestion = fillFromHand (config ai) myHandSlice
                              [categoryOf (config ai) targetCard \<mapsto> targetCard];
               ai' = ai\<lparr>rand := r'\<rparr>
           in if mapLen suggestion < 3 then
                foldOpt fillStep [CategorySuspect, CategoryWeapon, CategoryRoom] (suggestion, ai')
              else Some (suggestion, ai')))"

text \<open>
  The frequency table of \<^verbatim>\<open>SurgicalStrikeStrategy.BuildSuggestion\<close>: its keys are the
  cards some mystery lists, its value at a key the number of mysteries that list it. The
  increments commute, so the order in which Go enumerates the candidate sets is immaterial.
\<close>

definition frequencyKeys :: "UnresolvedSuggestion list \<Rightarrow> string fset" where
  "frequencyKeys ms = ffUnion (fset_of_list (map PossibleCards ms))"

definition cardFrequency :: "UnresolvedSuggestion list \<Rightarrow> string \<Rightarrow> nat" where
  "cardFrequency ms c = length (filter (\<lambda>m. c |\<in>| PossibleCards m) ms)"

text \<open>
  \<^verbatim>\<open>sortByValue\<close> receives the table's entries in the order in which the Go runtime
  enumerates the map, which is unspecified: the entries in that order are the argument
  \<open>ss\<close>. The comparison of \<^verbatim>\<open>sort.Slice\<close> looks at the values only, larger first, and the
  sort is not stable; as the order of \<open>ss\<close> is arbitrary already, every order that can
  result is the stable sort of some enumeration.
\<close>

definition sortByValue :: "(string \<times> nat) list \<Rightarrow> string list" where
  "sortByValue ss = map fst (sort_key (\<lambda>kv. - int (snd kv)) ss)"

definition enumerates :: "string list \<Rightarrow> string fset \<Rightarrow> bool" where
  "enumerates iter keys \<longleftrightarrow> distinct iter \<and> fset_of_list iter = keys"

text \<open>
  The target of the Surgical Strike, for the enumeration \<open>iter\<close> of the frequency table:
  the ranking, the filter on the recent targets, the fall-back and the choice.
\<close>

definition patientTargets :: "AdvancedAIBrain \<Rightarrow> string list \<Rightarrow> string list" where
  "patientTargets ai iter =
     (let sortedTargets =
            sortByValue (map (\<lambda>c. (c, cardFrequency (unresolvedSuggestions ai) c)) iter);
          patient = filter (\<lambda>c. \<not> Contains (recentSurgicalTargets ai) c) sortedTargets
      in if length patient = 0 then sortedTargets else patient)"

definition surgicalTarget ::
  "AdvancedAIBrain \<Rightarrow> string list \<Rightarrow> (string \<times> AdvancedAIBrain) option" where
  "surgicalTarget ai iter =
     (case Choose (chooser ai) (rand ai) (patientTargets ai iter) of
        None \<Rightarrow> None
      | Some (targetCard, l, r') \<Rightarrow> Some (targetCard, ai\<lparr>rand := r'\<rparr>))"

text \<open>
  \<^verbatim>\<open>SurgicalStrikeStrategy.BuildSuggestion\<close>: the inner \<open>None\<close> is the result
  \<^verbatim>\<open>(nil, false)\<close>.
\<close>

definition SurgicalStrike_BuildSuggestion ::
  "AdvancedAIBrain \<Rightarrow> string list
     \<Rightarrow> ((CardCategory \<rightharpoonup> string) option \<times> AdvancedAIBrain) option" where
  "SurgicalStrike_BuildSuggestion ai iter =
     (if length (unresolvedSuggestions ai) = 0 then Some (None, ai)
      else if fcard (frequencyKeys (unresolvedSuggestions ai)) > 0 then
        (case surgicalTarget ai iter of
           None \<Rightarrow> None
         | Some (targetCard, ai1) \<Rightarrow>
             (case buildSuggestionAroundTarget
                     (ai1\<lparr>recentSurgicalTargets := Push (recentSurgicalTargets ai1) targetCard\<rparr>)
                     targetCard of
                None \<Rightarrow> None
              | Some (suggestion, ai2) \<Rightarrow> Some (Some suggestion, ai2)))
      else Some (None, ai))"

section \<open>Predicates of the statements\<close>

text \<open>
  Every catalog card has a row in the grid: \<^verbatim>\<open>Setup\<close> establishes this for a catalog whose
  card-to-category table and card list agree, and no operation removes a row.
\<close>

definition rowsPresent :: "AdvancedAIBrain \<Rightarrow> bool" where
  "rowsPresent ai \<longleftrightarrow> (\<forall>c. CardToType (config ai) c \<noteq> None \<longrightarrow> knowledge ai c \<noteq> None)"

text \<open>
  Mutual exclusion over the closed set of locations: where a card is Yes at one of them, it
  is No at every other one.
\<close>

definition gridExclusive :: "AdvancedAIBrain \<Rightarrow> bool" where
  "gridExclusive ai \<longleftrightarrow>
     (\<forall>c. \<forall>l \<in> set (allLocations ai). cell (knowledge ai) c l = StatusYes \<longrightarrow>
        (\<forall>l' \<in> set (allLocations ai). l' \<noteq> l \<longrightarrow> cell (knowledge ai) c l' = StatusNo))"

text \<open>At most one location of the closed set holds Yes for a card.\<close>

definition atMostOneYes :: "AdvancedAIBrain \<Rightarrow> bool" where
  "atMostOneYes ai \<longleftrightarrow>
     (\<forall>c. \<forall>l1 \<in> set (allLocations ai). \<forall>l2 \<in> set (allLocations ai).
        cell (knowledge ai) c l1 = StatusYes \<and> cell (knowledge ai) c l2 = StatusYes \<longrightarrow> l1 = l2)"

text \<open>
  The states an agent can be taken to by marking cards and by replacing the tracked
  mysteries or the hand: every inference rule and every event handler changes the grid
  through \<^verbatim>\<open>_markCardLocation\<close> only.
\<close>

inductive viaMarks :: "AdvancedAIBrain \<Rightarrow> AdvancedAIBrain \<Rightarrow> bool" where
  viaMarks_refl: "viaMarks a a"
| viaMarks_mark: "viaMarks a b \<Longrightarrow> markCardLocation b c l = Some (ch, b') \<Longrightarrow> viaMarks a b'"
| viaMarks_tracked: "viaMarks a b \<Longrightarrow> viaMarks a (b\<lparr>unresolvedSuggestions := ms\<rparr>)"
| viaMarks_hand: "viaMarks a b \<Longrightarrow> viaMarks a (b\<lparr>hand := h\<rparr>)"

text \<open>
  The fields that building a suggestion leaves alone: it changes the random source, the
  recent targets and the order of the catalog's category lists only.
\<close>

definition gridFrame :: "AdvancedAIBrain \<Rightarrow> AdvancedAIBrain \<Rightarrow> bool" where
  "gridFrame a b \<longleftrightarrow> knowledge b = knowledge a \<and> players b = players a \<and> hand b = hand a \<and>
     chooser b = chooser a \<and> unresolvedSuggestions b = unresolvedSuggestions a \<and>
     CardToType (config b) = CardToType (config a)"

text \<open>
  For the statements about pruning: the candidates of a mystery that are not known No at
  its disprover (the set \<^verbatim>\<open>prunedCards\<close> of the loop body), and what a tracked mystery
  can become in a pass: the same disprover, a subset of the candidates, at least two of
  them.
\<close>

definition prunedCardsOf :: "AdvancedAIBrain \<Rightarrow> UnresolvedSuggestion \<Rightarrow> string fset" where
  "prunedCardsOf ai mystery =
     ffilter (\<lambda>c. cell (knowledge ai) c (Disprover mystery) \<noteq> StatusNo) (PossibleCards mystery)"

definition prunedFrom :: "UnresolvedSuggestion \<Rightarrow> UnresolvedSuggestion \<Rightarrow> bool" where
  "prunedFrom m m' \<longleftrightarrow> Disprover m' = Disprover m \<and> PossibleCards m' |\<subseteq>| PossibleCards m \<and>
     2 \<le> fcard (PossibleCards m')"

text \<open>
  The cards the Surgical Strike can target: the candidates of the tracked mysteries that
  are not among the recent targets, or all candidates when every one of them is recent.
\<close>

definition targetPool :: "AdvancedAIBrain \<Rightarrow> string fset" where
  "targetPool ai =
     (let keys = frequencyKeys (unresolvedSuggestions ai);
          patient = ffilter (\<lambda>c. \<not> Contains (recentSurgicalTargets ai) c) keys
      in if patient = {||} then keys else patient)"

section \<open>Catalog construction and a small game\<close>

text \<open>\<^verbatim>\<open>Load\<close>, after the three lists have been read from the file.\<close>

definition prepareConfig :: "string list \<Rightarrow> string list \<Rightarrow> string list \<Rightarrow> GameConfig" where
  "prepareConfig suspects weapons rooms =
     (let s = sort suspects; w = sort weapons; r = sort rooms
      in \<lparr>Suspects = s, Weapons = w, Rooms = r, AllCards = s @ w @ r,
          CardToType =
            fold (\<lambda>c m. m(c \<mapsto> CategoryRoom)) r
              (fold (\<lambda>c m. m(c \<mapsto> CategoryWeapon)) w
                 (fold (\<lambda>c m. m(c \<mapsto> CategorySuspect)) s Map.empty))\<rparr>)"

text \<open>A catalog of six cards and an agent \<open>P1\<close> in a game of three players.\<close>

definition demoConfig :: GameConfig where
  "demoConfig = prepareConfig [''Green'', ''Plum''] [''Rope'', ''Wrench''] [''Hall'', ''Study'']"

definition zeroRand :: RandSource where
  "zeroRand = \<lparr>draws = (\<lambda>i. 0), cursor = 0\<rparr>"

definition oneRand :: RandSource where
  "oneRand = \<lparr>draws = (\<lambda>i. 1), cursor = 0\<rparr>"

definition demoBrain :: AdvancedAIBrain where
  "demoBrain = Setup DeterministicChooser zeroRand demoConfig [''P1'', ''P2'', ''P3''] ''P1''"

text \<open>Events of the small game.\<close>

definition demoReveal :: TurnResolvedEvent where
  "demoReveal = \<lparr>SuggesterName = ''Game Event'', Suggestion = Map.empty,
                  DisproverName = ''P2'', RevealedCard = ''Green''\<rparr>"

definition demoEmptyReveal :: TurnResolvedEvent where
  "demoEmptyReveal = \<lparr>SuggesterName = ''Game Event'', Suggestion = Map.empty,
                       DisproverName = ''P2'', RevealedCard = ''''\<rparr>"

definition demoRopeReveal :: TurnResolvedEvent where
  "demoRopeReveal = \<lparr>SuggesterName = ''Game Event'', Suggestion = Map.empty,
                      DisproverName = ''P2'', RevealedCard = ''Rope''\<rparr>"

definition demoUndisproved :: TurnResolvedEvent where
  "demoUndisproved =
     \<lparr>SuggesterName = ''P1'',
      Suggestion = [CategorySuspect \<mapsto> ''Plum'', CategoryWeapon \<mapsto> ''Wrench'',
                    CategoryRoom \<mapsto> ''Study''],
      DisproverName = '''', RevealedCard = ''''\<rparr>"

definition demoBadDisproval :: TurnResolvedEvent where
  "demoBadDisproval =
     \<lparr>SuggesterName = ''P3'',
      Suggestion = [CategorySuspect \<mapsto> ''Green'', CategoryWeapon \<mapsto> ''Rope''],
      DisproverName = ''P2'', RevealedCard = ''''\<rparr>"

definition demoDisproval1 :: TurnResolvedEvent where
  "demoDisproval1 =
     \<lparr>SuggesterName = ''P3'',
      Suggestion = [CategorySuspect \<mapsto> ''Green'', CategoryWeapon \<mapsto> ''Rope'',
                    CategoryRoom \<mapsto> ''Hall''],
      DisproverName = ''P2'', RevealedCard = ''''\<rparr>"

definition demoDisproval2 :: TurnResolvedEvent where
  "demoDisproval2 =
     \<lparr>SuggesterName = ''P2'',
      Suggestion = [CategorySuspect \<mapsto> ''Plum'', CategoryWeapon \<mapsto> ''Rope'',
                    CategoryRoom \<mapsto> ''Hall''],
      DisproverName = ''P3'', RevealedCard = ''''\<rparr>"

text \<open>States the agent reaches by them.\<close>

definition demoRevealed :: AdvancedAIBrain where
  "demoRevealed = the (processTurnEvent demoBrain demoReveal)"

definition demoDealt :: AdvancedAIBrain where
  "demoDealt = the (ReceiveHand demoBrain [''Green'', ''Rope''])"

definition demoOneCard :: AdvancedAIBrain where
  "demoOneCard = the (ReceiveHand demoBrain [''Green''])"

definition demoSolved :: AdvancedAIBrain where
  "demoSolved = the (HandleEvent demoBrain (TurnResolved demoUndisproved))"

definition demoContradiction :: AdvancedAIBrain where
  "demoContradiction = the (turnUpdates demoDealt demoBadDisproval)"

definition demoSolvable :: AdvancedAIBrain where
  "demoSolvable = the (turnUpdates demoOneCard demoBadDisproval)"

definition demoMysteries :: AdvancedAIBrain where
  "demoMysteries =
     the (processTurnEvent (the (processTurnEvent demoBrain demoDisproval1)) demoDisproval2)"

text \<open>The agent that solved the case and then learns where \<open>Green\<close> is.\<close>

definition demoSettled :: AdvancedAIBrain where
  "demoSettled = the (HandleEvent demoSolved (TurnResolved demoReveal))"

text \<open>
  A catalog of twelve cards and a game of three players: the agent \<open>P1\<close> is dealt three
  cards and then sees \<open>P2\<close> disprove a suggestion of \<open>P3\<close>. The run is a function of the
  random source the agent is built with.
\<close>

definition tableConfig :: GameConfig where
  "tableConfig =
     prepareConfig [''Green'', ''Mustard'', ''Plum'', ''Scarlett'']
       [''Knife'', ''Pipe'', ''Rope'', ''Wrench''] [''Hall'', ''Kitchen'', ''Lounge'', ''Study'']"

definition tableDisproval :: TurnResolvedEvent where
  "tableDisproval =
     \<lparr>SuggesterName = ''P3'',
      Suggestion = [CategorySuspect \<mapsto> ''Green'', CategoryWeapon \<mapsto> ''Knife'',
                    CategoryRoom \<mapsto> ''Study''],
      DisproverName = ''P2'', RevealedCard = ''''\<rparr>"

definition tableRun :: "RandSource \<Rightarrow> AdvancedAIBrain option" where
  "tableRun r =
     Option.bind
       (ReceiveHand (Setup DeterministicChooser r tableConfig [''P1'', ''P2'', ''P3''] ''P1'')
          [''Hall'', ''Rope'', ''Wrench''])
       (\<lambda>a. HandleEvent a (TurnResolved tableDisproval))"

definition tableMystery :: AdvancedAIBrain where
  "tableMystery = the (tableRun zeroRand)"

text \<open>
  Two sources that deliver the same number at every call: the number with all 63 bits
  set, and the number with bit 62 alone.
\<close>

definition onesRand :: RandSource where
  "onesRand = \<lparr>draws = (\<lambda>i. 2 ^ 63 - 1), cursor = 0\<rparr>"

definition halfRand :: RandSource where
  "halfRand = \<lparr>draws = (\<lambda>i. 2 ^ 62), cursor = 0\<rparr>"

chapter \<open>Verified properties\<close>

section \<open>The bounded draws stay below the bound\<close>

lemma and_nat_le: "(v::nat) AND m \<le> m"
  by (metis AND_upper2 of_nat_0_le_iff of_nat_and_eq of_nat_le_iff)

lemma Int31n_less: "0 < n \<Longrightarrow> Int31n r n = (i, r') \<Longrightarrow> i < n"
  apply (auto simp: Int31n_def split: prod.splits if_splits)
  by (metis and_nat_le Suc_pred less_Suc_eq_le)

lemma Int63n_less: "0 < n \<Longrightarrow> Int63n r n = (i, r') \<Longrightarrow> i < n"
  apply (auto simp: Int63n_def split: prod.splits if_splits)
  by (metis and_nat_le Suc_pred less_Suc_eq_le)

lemma Uint32_less: "Uint32 r = (v, r') \<Longrightarrow> v < 2 ^ 32"
proof -
  assume "Uint32 r = (v, r')"
  then have v: "v = draws r (cursor r) mod 2 ^ 63 div 2 ^ 31" by (auto simp: Uint32_def Int63_def)
  have "draws r (cursor r) mod 2 ^ 63 < 2 ^ 31 * 2 ^ 32" by simp
  then show ?thesis unfolding v by (simp only: less_mult_imp_div_less mult.commute)
qed

lemma int31n_less:
  assumes "0 < n" "int31n r n = (i, r')"
  shows "i < n"
proof -
  obtain v r1 where u: "Uint32 r = (v, r1)" by (cases "Uint32 r") auto
  with assms(2) have i: "i = v * n div 2 ^ 32" by (simp add: int31n_def)
  from Uint32_less[OF u] assms(1) have "v * n < n * 2 ^ 32" by simp
  then show ?thesis unfolding i by (rule less_mult_imp_div_less)
qed

lemma Intn_zero: "Intn r 0 = None"
  by (simp add: Intn_def)

lemma Intn_small: "0 < n \<Longrightarrow> n \<le> 2 ^ 31 - 1 \<Longrightarrow> Intn r n = Some (Int31n r n)"
  by (simp add: Intn_def)

lemma Intn_big: "\<not> n \<le> 2 ^ 31 - 1 \<Longrightarrow> Intn r n = Some (Int63n r n)"
  by (simp add: Intn_def)

lemma Intn_less:
  assumes "Intn r n = Some (i, r')"
  shows "i < n"
proof (cases "n = 0")
  case True
  with assms show ?thesis by (simp add: Intn_zero)
next
  case False
  then have pos: "0 < n" by simp
  show ?thesis
  proof (cases "n \<le> 2 ^ 31 - 1")
    case True
    from assms have "Int31n r n = (i, r')" unfolding Intn_small[OF pos True] by simp
    with pos show ?thesis by (rule Int31n_less)
  next
    case big: False
    from assms have "Int63n r n = (i, r')" unfolding Intn_big[OF big] by simp
    with pos show ?thesis by (rule Int63n_less)
  qed
qed

lemma Intn_total:
  assumes "0 < n"
  shows "\<exists>i r'. Intn r n = Some (i, r') \<and> i < n"
proof -
  from assms have z: "(n = 0) = False" by simp
  have "\<exists>p. Intn r n = Some p"
    unfolding Intn_def z by (cases "n \<le> 2 ^ 31 - 1") (simp_all only: if_False if_True, blast+)
  then obtain i r' where "Intn r n = Some (i, r')" by (metis surj_pair)
  with Intn_less[OF this] show ?thesis by blast
qed

lemma shuffleFrom_draw_inside:
  assumes "(if Suc i > 2 ^ 31 - 1 - 1 then Int63n r (Suc (Suc i)) else int31n r (Suc (Suc i))) = (j, r')"
  shows "j \<le> Suc i"
proof (cases "Suc i > 2 ^ 31 - 1 - (1::nat)")
  case True
  with assms have "Int63n r (Suc (Suc i)) = (j, r')" by (simp only: if_True)
  from Int63n_less[OF _ this] show ?thesis by simp
next
  case False
  with assms have "int31n r (Suc (Suc i)) = (j, r')" by (simp only: if_False)
  from int31n_less[OF _ this] show ?thesis by simp
qed

section \<open>Marking a card\<close>

lemma fold_setNo:
  "(fold (\<lambda>loc r. r(loc \<mapsto> StatusNo)) ls row) x = (if x \<in> set ls then Some StatusNo else row x)"
  by (induction ls arbitrary: row) auto

lemma mark_invalid: "CardToType (config ai) c = None \<Longrightarrow> markCardLocation ai c l = Some (False, ai)"
  by (simp add: markCardLocation_def)

lemma mark_False: "markCardLocation ai c l = Some (False, ai') \<Longrightarrow> ai' = ai"
  by (auto simp: markCardLocation_def split: if_splits option.splits)

lemma mark_frame:
  "markCardLocation ai c l = Some (b, ai') \<Longrightarrow> ai' = ai\<lparr>knowledge := knowledge ai'\<rparr>"
  by (auto simp: markCardLocation_def split: if_splits option.splits)

lemma mark_True_unfold:
  assumes "markCardLocation ai c l = Some (True, ai')"
  obtains row where "knowledge ai c = Some row"
    and "ai' = ai\<lparr>knowledge := (knowledge ai)
           (c \<mapsto> (fold (\<lambda>loc r. r(loc \<mapsto> StatusNo)) (allLocations ai) row)(l \<mapsto> StatusYes))\<rparr>"
proof -
  from assms have v: "CardToType (config ai) c \<noteq> None" "cell (knowledge ai) c l \<noteq> StatusYes"
    by (auto simp: markCardLocation_def split: if_splits)
  with assms obtain row where r: "knowledge ai c = Some row"
    by (cases "knowledge ai c") (auto simp: markCardLocation_def)
  with assms v have "ai' = ai\<lparr>knowledge := (knowledge ai)
           (c \<mapsto> (fold (\<lambda>loc r. r(loc \<mapsto> StatusNo)) (allLocations ai) row)(l \<mapsto> StatusYes))\<rparr>"
    by (simp add: markCardLocation_def)
  with r that show thesis by blast
qed

lemma mark_True_cell:
  assumes "markCardLocation ai c l = Some (True, ai')"
  shows "cell (knowledge ai') c' l' =
     (if c' = c then (if l' = l then StatusYes
                      else if l' \<in> set (allLocations ai) then StatusNo
                      else cell (knowledge ai) c l')
      else cell (knowledge ai) c' l')"
proof -
  from assms obtain row where r: "knowledge ai c = Some row"
    and a: "ai' = ai\<lparr>knowledge := (knowledge ai)
           (c \<mapsto> (fold (\<lambda>loc r. r(loc \<mapsto> StatusNo)) (allLocations ai) row)(l \<mapsto> StatusYes))\<rparr>"
    by (rule mark_True_unfold)
  show ?thesis
  proof (cases "c' = c")
    case False
    then show ?thesis by (simp add: a cell_def)
  next
    case True
    then show ?thesis by (simp add: a r cell_def fold_setNo)
  qed
qed

lemma mark_True_pre:
  "markCardLocation ai c l = Some (True, ai') \<Longrightarrow>
     CardToType (config ai) c \<noteq> None \<and> cell (knowledge ai) c l \<noteq> StatusYes"
  by (auto simp: markCardLocation_def split: if_splits option.splits)

lemma mark_dom:
  "markCardLocation ai c l = Some (b, ai') \<Longrightarrow> dom (knowledge ai') = dom (knowledge ai)"
  by (auto simp: markCardLocation_def split: if_splits option.splits)

lemma mark_total:
  "rowsPresent ai \<Longrightarrow> \<exists>b ai'. markCardLocation ai c l = Some (b, ai')"
  by (auto simp: markCardLocation_def rowsPresent_def split: if_splits option.splits)

lemma mark_Yes_after:
  assumes "markCardLocation ai c l = Some (b, ai')" "CardToType (config ai) c \<noteq> None"
  shows "cell (knowledge ai') c l = StatusYes"
proof (cases b)
  case True
  with assms(1) show ?thesis by (simp add: mark_True_cell)
next
  case False
  with assms(1) have e: "ai' = ai" by (auto dest: mark_False)
  from assms False have "cell (knowledge ai) c l = StatusYes"
    by (cases "knowledge ai c") (auto simp: markCardLocation_def split: if_splits)
  with e show ?thesis by simp
qed

lemma mark_fields:
  assumes "markCardLocation ai c l = Some (b, ai')"
  shows "config ai' = config ai" "players ai' = players ai" "hand ai' = hand ai"
    "unresolvedSuggestions ai' = unresolvedSuggestions ai" "name ai' = name ai"
    "chooser ai' = chooser ai" "rand ai' = rand ai"
    "recentSurgicalTargets ai' = recentSurgicalTargets ai" "allLocations ai' = allLocations ai"
  using assms by (auto simp: markCardLocation_def allLocations_def split: if_splits option.splits)

lemma mark_rowsPresent:
  "rowsPresent ai \<Longrightarrow> markCardLocation ai c l = Some (b, ai') \<Longrightarrow> rowsPresent ai'"
  using mark_dom[of ai c l b ai'] mark_fields(1)[of ai c l b ai']
  by (auto simp: rowsPresent_def dom_def set_eq_iff)

lemma mark_gridExclusive:
  assumes "gridExclusive ai" "markCardLocation ai c l = Some (b, ai')"
  shows "gridExclusive ai'"
proof (cases b)
  case False
  with assms(2) have "ai' = ai" by (auto dest: mark_False)
  with assms(1) show ?thesis by simp
next
  case True
  with assms(2) have m: "markCardLocation ai c l = Some (True, ai')" by simp
  have locs: "allLocations ai' = allLocations ai" using mark_fields(9)[OF m] .
  show ?thesis
    using assms(1) unfolding gridExclusive_def locs mark_True_cell[OF m]
    by (auto split: if_splits)
qed

lemma viaMarks_trans: "viaMarks b c \<Longrightarrow> viaMarks a b \<Longrightarrow> viaMarks a c"
  by (induction rule: viaMarks.induct) (auto intro: viaMarks.intros)

lemma viaMarks_fields:
  assumes "viaMarks a b"
  shows "config b = config a" "players b = players a" "name b = name a"
    "chooser b = chooser a" "rand b = rand a"
    "recentSurgicalTargets b = recentSurgicalTargets a" "allLocations b = allLocations a"
  using assms by (induction rule: viaMarks.induct) (auto simp: mark_fields allLocations_def)

lemma viaMarks_rowsPresent: "viaMarks a b \<Longrightarrow> rowsPresent a \<Longrightarrow> rowsPresent b"
proof (induction rule: viaMarks.induct)
  case (viaMarks_mark a b c l ch b')
  then show ?case using mark_rowsPresent by blast
qed (simp_all add: rowsPresent_def)

lemma gridExclusive_tracked [simp]:
  "gridExclusive (b\<lparr>unresolvedSuggestions := ms\<rparr>) = gridExclusive b"
  by (simp add: gridExclusive_def allLocations_def)

lemma gridExclusive_hand [simp]: "gridExclusive (b\<lparr>hand := h\<rparr>) = gridExclusive b"
  by (simp add: gridExclusive_def allLocations_def)

lemma viaMarks_gridExclusive: "viaMarks a b \<Longrightarrow> gridExclusive a \<Longrightarrow> gridExclusive b"
proof (induction rule: viaMarks.induct)
  case (viaMarks_mark a b c l ch b')
  then show ?case using mark_gridExclusive by blast
qed simp_all

lemma foldOpt_via:
  assumes step: "\<And>x s s'. f x s = Some s' \<Longrightarrow> viaMarks (g s) (g s')"
  shows "foldOpt f xs s = Some s' \<Longrightarrow> viaMarks (g s) (g s')"
proof (induction xs arbitrary: s)
  case Nil
  then show ?case by (simp add: viaMarks_refl)
next
  case (Cons x xs)
  then obtain s1 where s1: "f x s = Some s1" "foldOpt f xs s1 = Some s'"
    by (auto split: option.splits)
  from step[OF s1(1)] Cons.IH[OF s1(2)] show ?case by (rule viaMarks_trans[rotated])
qed

lemma foldOpt_total:
  assumes step: "\<And>x s. I s \<Longrightarrow> \<exists>s'. f x s = Some s' \<and> I s'"
  shows "I s \<Longrightarrow> \<exists>s'. foldOpt f xs s = Some s' \<and> I s'"
proof (induction xs arbitrary: s)
  case Nil
  then show ?case by simp
next
  case (Cons x xs)
  from step[OF Cons.prems] obtain s1 where s1: "f x s = Some s1" "I s1" by blast
  from Cons.IH[OF s1(2)] s1(1) show ?case by simp
qed

section \<open>Every rule works through marks\<close>

lemma pruneStep_via:
  "pruneStep m st = Some st' \<Longrightarrow> viaMarks (snd (snd st)) (snd (snd st'))"
proof -
  assume a: "pruneStep m st = Some st'"
  obtain ch rem ai where st: "st = (ch, rem, ai)" by (cases st) auto
  define pruned where "pruned = ffilter (\<lambda>c. cell (knowledge ai) c (Disprover m) \<noteq> StatusNo) (PossibleCards m)"
  show ?thesis
  proof (cases "fcard pruned = 1")
    case True
    with a st obtain b ai' where "markCardLocation ai (hd (mapKeys pruned)) (Disprover m) = Some (b, ai')"
      and "snd (snd st') = ai'"
      by (auto simp: pruneStep_def Let_def pruned_def split: option.splits)
    then show ?thesis using st viaMarks_mark[OF viaMarks_refl] by auto
  next
    case False
    with a st have "snd (snd st') = ai"
      by (auto simp: pruneStep_def Let_def pruned_def split: if_splits)
    then show ?thesis using st by (simp add: viaMarks_refl)
  qed
qed

lemma prune_via: "pruneAndSolveMysteries ai = Some (ch, ai') \<Longrightarrow> viaMarks ai ai'"
proof -
  assume a: "pruneAndSolveMysteries ai = Some (ch, ai')"
  then obtain c r a1 where f: "foldOpt pruneStep (unresolvedSuggestions ai) (False, [], ai) = Some (c, r, a1)"
    and e: "ai' = a1\<lparr>unresolvedSuggestions := r\<rparr>"
    by (auto simp: pruneAndSolveMysteries_def split: option.splits)
  from foldOpt_via[where f = pruneStep and g = "\<lambda>st. snd (snd st)", OF pruneStep_via f]
  have "viaMarks ai a1" by simp
  then show ?thesis unfolding e by (rule viaMarks_tracked)
qed

lemma solutionStep_via: "solutionStep cat st = Some st' \<Longrightarrow> viaMarks (snd st) (snd st')"
proof -
  assume a: "solutionStep cat st = Some st'"
  obtain ch ai where st: "st = (ch, ai)" by (cases st) auto
  from a st consider "snd st' = ai"
    | c l b where "markCardLocation ai c l = Some (b, snd st')"
    by (auto simp: solutionStep_def Let_def split: if_splits option.splits)
  then show ?thesis
  proof cases
    case 1
    then show ?thesis using st by (simp add: viaMarks_refl)
  next
    case 2
    then show ?thesis using st viaMarks_mark[OF viaMarks_refl] by auto
  qed
qed

lemma deduceSolution_via: "deduceSolutionByElimination ai = Some (ch, ai') \<Longrightarrow> viaMarks ai ai'"
  unfolding deduceSolutionByElimination_def
  using foldOpt_via[where f = solutionStep and g = snd, OF solutionStep_via] by fastforce

lemma locationStep_via: "locationStep c st = Some st' \<Longrightarrow> viaMarks (snd st) (snd st')"
proof -
  assume a: "locationStep c st = Some st'"
  obtain ch ai where st: "st = (ch, ai)" by (cases st) auto
  from a st consider "snd st' = ai"
    | c l b where "markCardLocation ai c l = Some (b, snd st')"
    by (auto simp: locationStep_def split: if_splits option.splits prod.splits)
  then show ?thesis
  proof cases
    case 1
    then show ?thesis using st by (simp add: viaMarks_refl)
  next
    case 2
    then show ?thesis using st viaMarks_mark[OF viaMarks_refl] by auto
  qed
qed

lemma deduceLocations_via:
  "deduceCardLocationsByElimination ai = Some (ch, ai') \<Longrightarrow> viaMarks ai ai'"
  unfolding deduceCardLocationsByElimination_def
  using foldOpt_via[where f = locationStep and g = snd, OF locationStep_via] by fastforce

lemma deductionPass_unfold:
  assumes "deductionPass ai = Some (ch, ai')"
  obtains c1 a1 c2 a2 c3 where "pruneAndSolveMysteries ai = Some (c1, a1)"
    "deduceSolutionByElimination a1 = Some (c2, a2)"
    "deduceCardLocationsByElimination a2 = Some (c3, ai')"
    "ch = (c1 \<or> c2 \<or> c3)"
proof -
  obtain c1 a1 where p1: "pruneAndSolveMysteries ai = Some (c1, a1)"
    using assms by (cases "pruneAndSolveMysteries ai") (auto simp: deductionPass_def)
  obtain c2 a2 where p2: "deduceSolutionByElimination a1 = Some (c2, a2)"
    using assms p1 by (cases "deduceSolutionByElimination a1") (auto simp: deductionPass_def)
  obtain c3 a3 where p3: "deduceCardLocationsByElimination a2 = Some (c3, a3)"
    using assms p1 p2
    by (cases "deduceCardLocationsByElimination a2") (auto simp: deductionPass_def)
  from assms p1 p2 p3 have "a3 = ai'" "ch = (c1 \<or> c2 \<or> c3)"
    by (auto simp: deductionPass_def)
  with p1 p2 p3 that show thesis by blast
qed

lemma deductionPass_via:
  assumes "deductionPass ai = Some (ch, ai')"
  shows "viaMarks ai ai'"
proof -
  from assms obtain c1 a1 c2 a2 c3 where "pruneAndSolveMysteries ai = Some (c1, a1)"
    "deduceSolutionByElimination a1 = Some (c2, a2)"
    "deduceCardLocationsByElimination a2 = Some (c3, ai')"
    by (rule deductionPass_unfold)
  then have "viaMarks ai a1" "viaMarks a1 a2" "viaMarks a2 ai'"
    by (auto dest: prune_via deduceSolution_via deduceLocations_via)
  then show ?thesis by (meson viaMarks_trans)
qed

lemma deductionLoopFrom_via:
  "deductionLoopFrom i ai = Some (n, conv, ai') \<Longrightarrow> viaMarks ai ai'"
proof (induction i ai rule: deductionLoopFrom.induct)
  case (1 i ai)
  show ?case
  proof (cases "i < 10")
    case False
    with "1.prems" show ?thesis by (simp add: deductionLoopFrom.simps[of i ai] viaMarks_refl)
  next
    case True
    with "1.prems" obtain ch a1 where p: "deductionPass ai = Some (ch, a1)"
      by (auto simp: deductionLoopFrom.simps[of i ai] split: option.splits)
    show ?thesis
    proof (cases ch)
      case False
      with True p "1.prems" have "ai' = a1" by (simp add: deductionLoopFrom.simps[of i ai])
      with p show ?thesis by (auto dest: deductionPass_via)
    next
      case ch: True
      with True p "1.prems" have "deductionLoopFrom (Suc i) a1 = Some (n, conv, ai')"
        by (simp add: deductionLoopFrom.simps[of i ai])
      from "1.IH"[OF True p refl _ this] ch have "viaMarks a1 ai'" by simp
      with deductionPass_via[OF p] show ?thesis by (meson viaMarks_trans)
    qed
  qed
qed

lemma runDeductionLoop_via: "runDeductionLoop ai = Some ai' \<Longrightarrow> viaMarks ai ai'"
  unfolding runDeductionLoop_def by (auto dest: deductionLoopFrom_via)

section \<open>No rule panics on a grid with all rows\<close>

lemma pruneStep_total:
  assumes "rowsPresent (snd (snd st))"
  shows "\<exists>st'. pruneStep m st = Some st' \<and> rowsPresent (snd (snd st'))"
proof -
  obtain ch rem ai where st: "st = (ch, rem, ai)" by (cases st) auto
  define pruned where "pruned = ffilter (\<lambda>c. cell (knowledge ai) c (Disprover m) \<noteq> StatusNo) (PossibleCards m)"
  from assms st have "rowsPresent ai" by simp
  from mark_total[OF this, of "hd (mapKeys pruned)" "Disprover m"] obtain b a1 where
    mk: "markCardLocation ai (hd (mapKeys pruned)) (Disprover m) = Some (b, a1)"
    by blast
  have "\<exists>st'. pruneStep m st = Some st'"
    using mk st by (auto simp: pruneStep_def Let_def pruned_def)
  then obtain st' where s: "pruneStep m st = Some st'" by blast
  from pruneStep_via[OF s] assms have "rowsPresent (snd (snd st'))"
    by (rule viaMarks_rowsPresent)
  with s show ?thesis by blast
qed

lemma prune_total:
  assumes "rowsPresent ai"
  shows "\<exists>ch ai'. pruneAndSolveMysteries ai = Some (ch, ai')"
proof -
  from foldOpt_total[where I = "\<lambda>st. rowsPresent (snd (snd st))" and f = pruneStep
        and s = "(False, [], ai)" and xs = "unresolvedSuggestions ai"]
    pruneStep_total assms
  obtain st' where "foldOpt pruneStep (unresolvedSuggestions ai) (False, [], ai) = Some st'"
    by auto
  then show ?thesis by (cases st') (auto simp: pruneAndSolveMysteries_def)
qed

lemma solutionStep_total:
  assumes "rowsPresent (snd st)"
  shows "\<exists>st'. solutionStep cat st = Some st' \<and> rowsPresent (snd st')"
proof -
  obtain ch ai where st: "st = (ch, ai)" by (cases st) auto
  define maybes where "maybes = filter (\<lambda>c. cell (knowledge ai) c ''solution'' = StatusMaybe)
      (CardListForCategory (config ai) cat)"
  from assms st have "rowsPresent ai" by simp
  from mark_total[OF this, of "hd maybes" "''solution''"] obtain b a1 where
    mk: "markCardLocation ai (hd maybes) ''solution'' = Some (b, a1)"
    by blast
  have "\<exists>st'. solutionStep cat st = Some st'"
    using mk st by (auto simp: solutionStep_def Let_def maybes_def)
  then obtain st' where s: "solutionStep cat st = Some st'" by blast
  from solutionStep_via[OF s] assms have "rowsPresent (snd st')"
    by (rule viaMarks_rowsPresent)
  with s show ?thesis by blast
qed

lemma deduceSolution_total:
  assumes "rowsPresent ai"
  shows "\<exists>ch ai'. deduceSolutionByElimination ai = Some (ch, ai')"
proof -
  from foldOpt_total[where I = "\<lambda>st. rowsPresent (snd st)" and f = solutionStep
        and s = "(False, ai)" and xs = categories]
    solutionStep_total assms
  obtain st' where "foldOpt solutionStep categories (False, ai) = Some st'"
    by auto
  then show ?thesis by (cases st') (auto simp: deduceSolutionByElimination_def)
qed

lemma locationStep_total:
  assumes "rowsPresent (snd st)"
  shows "\<exists>st'. locationStep c st = Some st' \<and> rowsPresent (snd st')"
proof -
  obtain ch ai where st: "st = (ch, ai)" by (cases st) auto
  obtain isKnown maybes where sc: "scanLocations (knowledge ai) c (allLocations ai) [] = (isKnown, maybes)"
    by (cases "scanLocations (knowledge ai) c (allLocations ai) []") auto
  from assms st have "rowsPresent ai" by simp
  from mark_total[OF this, of c "hd maybes"] obtain b a1 where
    mk: "markCardLocation ai c (hd maybes) = Some (b, a1)"
    by blast
  have "\<exists>st'. locationStep c st = Some st'"
    using mk st sc by (auto simp: locationStep_def)
  then obtain st' where s: "locationStep c st = Some st'" by blast
  from locationStep_via[OF s] assms have "rowsPresent (snd st')"
    by (rule viaMarks_rowsPresent)
  with s show ?thesis by blast
qed

lemma deduceLocations_total:
  assumes "rowsPresent ai"
  shows "\<exists>ch ai'. deduceCardLocationsByElimination ai = Some (ch, ai')"
proof -
  from foldOpt_total[where I = "\<lambda>st. rowsPresent (snd st)" and f = locationStep
        and s = "(False, ai)" and xs = "AllCards (config ai)"]
    locationStep_total assms
  obtain st' where "foldOpt locationStep (AllCards (config ai)) (False, ai) = Some st'"
    by auto
  then show ?thesis by (cases st') (auto simp: deduceCardLocationsByElimination_def)
qed

lemma deductionPass_total:
  assumes "rowsPresent ai"
  shows "\<exists>ch ai'. deductionPass ai = Some (ch, ai') \<and> rowsPresent ai'"
proof -
  from prune_total[OF assms] obtain c1 a1 where p1: "pruneAndSolveMysteries ai = Some (c1, a1)"
    by blast
  from prune_via[OF p1] assms have r1: "rowsPresent a1" by (rule viaMarks_rowsPresent)
  from deduceSolution_total[OF r1] obtain c2 a2 where
    p2: "deduceSolutionByElimination a1 = Some (c2, a2)" by blast
  from deduceSolution_via[OF p2] r1 have r2: "rowsPresent a2" by (rule viaMarks_rowsPresent)
  from deduceLocations_total[OF r2] obtain c3 a3 where
    p3: "deduceCardLocationsByElimination a2 = Some (c3, a3)" by blast
  from deduceLocations_via[OF p3] r2 have r3: "rowsPresent a3" by (rule viaMarks_rowsPresent)
  from p1 p2 p3 r3 show ?thesis by (simp add: deductionPass_def)
qed

lemma deductionLoopFrom_total:
  "rowsPresent ai \<Longrightarrow> \<exists>n conv ai'. deductionLoopFrom i ai = Some (n, conv, ai')"
proof (induction i ai rule: deductionLoopFrom.induct)
  case (1 i ai)
  show ?case
  proof (cases "i < 10")
    case False
    then have "deductionLoopFrom i ai = Some (i, False, ai)"
      by (simp add: deductionLoopFrom.simps[of i ai])
    then show ?thesis by blast
  next
    case True
    from deductionPass_total[OF "1.prems"] obtain ch a1 where
      p: "deductionPass ai = Some (ch, a1)" and r: "rowsPresent a1" by blast
    show ?thesis
    proof (cases ch)
      case False
      with True p show ?thesis by (auto simp: deductionLoopFrom.simps[of i ai])
    next
      case ch: True
      from "1.IH"[OF True p refl _ r] ch
      obtain n conv ai' where "deductionLoopFrom (Suc i) a1 = Some (n, conv, ai')" by auto
      with True p ch show ?thesis by (simp add: deductionLoopFrom.simps[of i ai])
    qed
  qed
qed

subsection \<open>A pass that reports no change leaves the agent as it was\<close>

lemma ffilter_fcard_eq: "\<not> fcard (ffilter P S) < fcard S \<Longrightarrow> ffilter P S = S"
proof -
  assume a: "\<not> fcard (ffilter P S) < fcard S"
  have sub: "ffilter P S |\<subseteq>| S" by auto
  have "fcard (ffilter P S) \<le> fcard S" using sub by (rule fcard_mono)
  with a have "fcard (ffilter P S) = fcard S" by simp
  with sub show ?thesis
    by (metis a less_le_not_le order_le_imp_less_or_eq pfsubset_fcard_mono)
qed

lemma pruneStep_changed_mono:
  "pruneStep m (ch, rem, ai) = Some (ch', rem', ai') \<Longrightarrow> ch \<Longrightarrow> ch'"
  by (auto simp: pruneStep_def Let_def split: if_splits option.splits)

lemma pruneStep_length:
  "pruneStep m (ch, rem, ai) = Some (ch', rem', ai') \<Longrightarrow> length rem' \<le> Suc (length rem)"
  by (auto simp: pruneStep_def Let_def split: if_splits option.splits)

lemma pruneStep_kept:
  assumes "pruneStep m (ch, rem, ai) = Some (ch', rem', ai')" "\<not> ch'"
    "length rem' = Suc (length rem)"
  shows "rem' = rem @ [m] \<and> ai' = ai"
proof -
  define pruned where "pruned = ffilter (\<lambda>c. cell (knowledge ai) c (Disprover m) \<noteq> StatusNo) (PossibleCards m)"
  have n1: "fcard pruned \<noteq> 1"
    using assms by (auto simp: pruneStep_def Let_def pruned_def split: option.splits)
  have g1: "fcard pruned > 1"
    using assms n1 by (auto simp: pruneStep_def Let_def pruned_def split: if_splits)
  have ns: "\<not> fcard pruned < fcard (PossibleCards m)"
    using assms n1 g1 by (auto simp: pruneStep_def Let_def pruned_def split: if_splits)
  show ?thesis using assms n1 g1 ns by (auto simp: pruneStep_def Let_def pruned_def)
qed

lemma foldOpt_prune_length:
  "foldOpt pruneStep ms (ch, rem, ai) = Some (ch', rem', ai') \<Longrightarrow>
     length rem' \<le> length rem + length ms \<and> (ch \<longrightarrow> ch')"
proof (induction ms arbitrary: ch rem ai)
  case Nil
  then show ?case by simp
next
  case (Cons m ms)
  then obtain c1 r1 a1 where s: "pruneStep m (ch, rem, ai) = Some (c1, r1, a1)"
    and f: "foldOpt pruneStep ms (c1, r1, a1) = Some (ch', rem', ai')"
    by (auto split: option.splits)
  from Cons.IH[OF f] pruneStep_length[OF s] pruneStep_changed_mono[OF s]
  show ?case by auto
qed

lemma foldOpt_prune_kept:
  "foldOpt pruneStep ms (ch, rem, ai) = Some (ch', rem', ai') \<Longrightarrow> \<not> ch' \<Longrightarrow>
     length rem' = length rem + length ms \<Longrightarrow> rem' = rem @ ms \<and> ai' = ai"
proof (induction ms arbitrary: ch rem ai)
  case Nil
  then show ?case by simp
next
  case (Cons m ms)
  then obtain c1 r1 a1 where s: "pruneStep m (ch, rem, ai) = Some (c1, r1, a1)"
    and f: "foldOpt pruneStep ms (c1, r1, a1) = Some (ch', rem', ai')"
    by (auto split: option.splits)
  from foldOpt_prune_length[OF f] Cons.prems(2) have nc1: "\<not> c1"
    and l1: "length rem' \<le> length r1 + length ms" by auto
  from l1 Cons.prems(3) pruneStep_length[OF s] have l2: "length r1 = Suc (length rem)" by simp
  from pruneStep_kept[OF s nc1 l2] have e: "r1 = rem @ [m]" "a1 = ai" by auto
  from Cons.prems(3) l2 have "length rem' = length r1 + length ms" by simp
  from Cons.IH[OF f Cons.prems(2) this] e show ?case by simp
qed

lemma foldOpt_const:
  assumes step: "\<And>x s s'. f x s = Some s' \<Longrightarrow> h s' = h s"
  shows "foldOpt f xs s = Some s' \<Longrightarrow> h s' = h s"
proof (induction xs arbitrary: s)
  case Nil
  then show ?case by simp
next
  case (Cons x xs)
  then obtain s1 where s1: "f x s = Some s1" "foldOpt f xs s1 = Some s'"
    by (auto split: option.splits)
  from step[OF s1(1)] Cons.IH[OF s1(2)] show ?case by simp
qed

lemma pruneStep_tracked:
  "pruneStep m st = Some st' \<Longrightarrow>
     unresolvedSuggestions (snd (snd st')) = unresolvedSuggestions (snd (snd st))"
  by (cases st) (auto simp: pruneStep_def Let_def mark_fields split: if_splits option.splits)

lemma prune_False:
  assumes "pruneAndSolveMysteries ai = Some (False, ai')"
  shows "ai' = ai"
proof -
  from assms obtain c r a1 where
    f: "foldOpt pruneStep (unresolvedSuggestions ai) (False, [], ai) = Some (c, r, a1)"
    and e: "ai' = a1\<lparr>unresolvedSuggestions := r\<rparr>"
    and nc: "\<not> c" "\<not> length r < length (unresolvedSuggestions a1)"
    by (auto simp: pruneAndSolveMysteries_def split: option.splits)
  have u: "unresolvedSuggestions a1 = unresolvedSuggestions ai"
    using foldOpt_const[where f = pruneStep and h = "\<lambda>st. unresolvedSuggestions (snd (snd st))",
        OF pruneStep_tracked f] by simp
  from foldOpt_prune_length[OF f] nc u have "length r = length [] + length (unresolvedSuggestions ai)"
    by simp
  from foldOpt_prune_kept[OF f nc(1) this] e show ?thesis by simp
qed


lemma solutionStep_False:
  "solutionStep cat (ch, ai) = Some (False, ai') \<Longrightarrow> ai' = ai \<and> \<not> ch"
  by (auto simp: solutionStep_def Let_def split: if_splits option.splits dest: mark_False)

lemma solutionStep_mono: "solutionStep cat (ch, ai) = Some (ch', ai') \<Longrightarrow> ch \<Longrightarrow> ch'"
  by (auto simp: solutionStep_def Let_def split: if_splits option.splits)

lemma foldOpt_solution_False:
  "foldOpt solutionStep cats (ch, ai) = Some (False, ai') \<Longrightarrow> ai' = ai \<and> \<not> ch"
proof (induction cats arbitrary: ch ai)
  case Nil
  then show ?case by simp
next
  case (Cons cat cats)
  then obtain c1 a1 where s: "solutionStep cat (ch, ai) = Some (c1, a1)"
    and f: "foldOpt solutionStep cats (c1, a1) = Some (False, ai')"
    by (auto split: option.splits)
  from Cons.IH[OF f] have e: "ai' = a1" "\<not> c1" by auto
  with s solutionStep_False[of cat ch ai a1] show ?case by simp
qed

lemma deduceSolution_False: "deduceSolutionByElimination ai = Some (False, ai') \<Longrightarrow> ai' = ai"
  unfolding deduceSolutionByElimination_def by (auto dest: foldOpt_solution_False)

lemma locationStep_False:
  "locationStep c (ch, ai) = Some (False, ai') \<Longrightarrow> ai' = ai \<and> \<not> ch"
  by (auto simp: locationStep_def split: if_splits option.splits prod.splits dest: mark_False)

lemma foldOpt_location_False:
  "foldOpt locationStep cs (ch, ai) = Some (False, ai') \<Longrightarrow> ai' = ai \<and> \<not> ch"
proof (induction cs arbitrary: ch ai)
  case Nil
  then show ?case by simp
next
  case (Cons c cs)
  then obtain c1 a1 where s: "locationStep c (ch, ai) = Some (c1, a1)"
    and f: "foldOpt locationStep cs (c1, a1) = Some (False, ai')"
    by (auto split: option.splits)
  from Cons.IH[OF f] have e: "ai' = a1" "\<not> c1" by auto
  with s locationStep_False[of c ch ai a1] show ?case by simp
qed

lemma deduceLocations_False:
  "deduceCardLocationsByElimination ai = Some (False, ai') \<Longrightarrow> ai' = ai"
  unfolding deduceCardLocationsByElimination_def by (auto dest: foldOpt_location_False)

lemma deductionPass_False:
  assumes "deductionPass ai = Some (False, ai')"
  shows "ai' = ai"
proof -
  from assms obtain c1 a1 c2 a2 c3 where p: "pruneAndSolveMysteries ai = Some (c1, a1)"
    "deduceSolutionByElimination a1 = Some (c2, a2)"
    "deduceCardLocationsByElimination a2 = Some (c3, ai')"
    and c: "False = (c1 \<or> c2 \<or> c3)"
    by (rule deductionPass_unfold)
  from c have "\<not> c1" "\<not> c2" "\<not> c3" by auto
  with p have "a1 = ai" "a2 = a1" "ai' = a2"
    by (auto dest: prune_False deduceSolution_False deduceLocations_False)
  then show ?thesis by simp
qed

lemma deductionLoopFrom_bounds:
  "deductionLoopFrom i ai = Some (n, conv, ai') \<Longrightarrow> i \<le> 10 \<Longrightarrow>
     i \<le> n \<and> n \<le> 10 \<and> (conv \<longrightarrow> deductionPass ai' = Some (False, ai')) \<and>
     (\<not> conv \<longrightarrow> n = 10)"
proof (induction i ai rule: deductionLoopFrom.induct)
  case (1 i ai)
  show ?case
  proof (cases "i < 10")
    case False
    with "1.prems" show ?thesis by (auto simp: deductionLoopFrom.simps[of i ai])
  next
    case True
    with "1.prems" obtain ch a1 where p: "deductionPass ai = Some (ch, a1)"
      by (auto simp: deductionLoopFrom.simps[of i ai] split: option.splits)
    show ?thesis
    proof (cases ch)
      case False
      with True p "1.prems" have e: "ai' = a1" "n = Suc i" "conv"
        by (auto simp: deductionLoopFrom.simps[of i ai])
      from p False have "a1 = ai" by (auto dest: deductionPass_False)
      with e p False True show ?thesis by auto
    next
      case ch: True
      with True p "1.prems" have l: "deductionLoopFrom (Suc i) a1 = Some (n, conv, ai')"
        by (simp add: deductionLoopFrom.simps[of i ai])
      from True have "Suc i \<le> 10" by simp
      from "1.IH"[OF True p refl _ l this] ch show ?thesis by auto
    qed
  qed
qed

lemma deductionLoopFrom_fixed:
  assumes "deductionPass ai = Some (False, ai)"
  shows "deductionLoopFrom 0 ai = Some (1, True, ai)"
  using assms by (simp add: deductionLoopFrom.simps[of 0 ai])

section \<open>Setup and the small game\<close>

lemma fold_setMaybe:
  "(fold (\<lambda>p r. r(p \<mapsto> StatusMaybe)) ps row) x = (if x \<in> set ps then Some StatusMaybe else row x)"
  by (induction ps arbitrary: row) auto

lemma fold_rows:
  "(fold (\<lambda>c k. k(c \<mapsto> row)) cs k0) x = (if x \<in> set cs then Some row else k0 x)"
  by (induction cs arbitrary: k0) auto

lemma Setup_cell: "cell (knowledge (Setup ch r cfg ps me)) c l = StatusMaybe"
  by (simp add: Setup_def cell_def fold_rows initialRow_def fold_setMaybe)

lemma Setup_rowsPresent:
  "dom (CardToType cfg) \<subseteq> set (AllCards cfg) \<Longrightarrow> rowsPresent (Setup ch r cfg ps me)"
  by (auto simp: rowsPresent_def Setup_def fold_rows)

lemma Setup_gridExclusive: "gridExclusive (Setup ch r cfg ps me)"
  by (simp add: gridExclusive_def Setup_cell)

lemma fold_category:
  "(fold (\<lambda>c m. m(c \<mapsto> t)) cs m0) x = (if x \<in> set cs then Some t else m0 x)"
  by (induction cs arbitrary: m0) auto

lemma prepareConfig_dom:
  "dom (CardToType (prepareConfig s w r)) = set (AllCards (prepareConfig s w r))"
  by (auto simp: prepareConfig_def Let_def fold_category dom_def split: if_splits)

lemma demoBrain_rowsPresent: "rowsPresent demoBrain"
  unfolding demoBrain_def demoConfig_def by (rule Setup_rowsPresent) (simp add: prepareConfig_dom)

lemma demoBrain_gridExclusive: "gridExclusive demoBrain"
  unfolding demoBrain_def by (rule Setup_gridExclusive)

lemma demoConfig_CardToType:
  "CardToType demoConfig = [''Green'' \<mapsto> CategorySuspect, ''Plum'' \<mapsto> CategorySuspect,
      ''Rope'' \<mapsto> CategoryWeapon, ''Wrench'' \<mapsto> CategoryWeapon,
      ''Hall'' \<mapsto> CategoryRoom, ''Study'' \<mapsto> CategoryRoom]"
  by (simp add: demoConfig_def prepareConfig_def Let_def)

lemma demoBrain_fields:
  "config demoBrain = demoConfig" "players demoBrain = [''P1'', ''P2'', ''P3'']"
  "name demoBrain = ''P1''" "hand demoBrain = {||}" "unresolvedSuggestions demoBrain = []"
  "chooser demoBrain = DeterministicChooser" "rand demoBrain = zeroRand"
  "allLocations demoBrain = [''P1'', ''P2'', ''P3'', ''solution'']"
  by (simp_all add: demoBrain_def Setup_def allLocations_def)

section \<open>Events and hand intake: marks only, no panic\<close>

lemma markUnlessHeld_via: "markUnlessHeld c a = Some a' \<Longrightarrow> viaMarks a a'"
  by (auto simp: markUnlessHeld_def split: if_splits
        intro: viaMarks_refl viaMarks_mark[OF viaMarks_refl])

lemma directReveal_via: "directReveal ai e = Some ai' \<Longrightarrow> viaMarks ai ai'"
  by (auto simp: directReveal_def split: if_splits
        intro: viaMarks_refl viaMarks_mark[OF viaMarks_refl])

lemma turnUpdates_via:
  assumes "turnUpdates ai e = Some ai'"
  shows "viaMarks ai ai'"
proof -
  let ?f = markUnlessHeld
  have fold: "\<And>cs a a'. foldOpt ?f cs a = Some a' \<Longrightarrow> viaMarks a a'"
    using foldOpt_via[where f = ?f and g = "\<lambda>a. a"] markUnlessHeld_via by blast
  show ?thesis
  proof (cases "name ai = SuggesterName e")
    case mine: True
    show ?thesis
    proof (cases "DisproverName e \<noteq> '''' \<and> RevealedCard e \<noteq> ''''")
      case True
      with mine assms obtain b where
        "markCardLocation ai (RevealedCard e) (DisproverName e) = Some (b, ai')"
        by (auto simp: turnUpdates_def)
      then show ?thesis by (rule viaMarks_mark[OF viaMarks_refl])
    next
      case shown: False
      show ?thesis
      proof (cases "DisproverName e = ''''")
        case True
        with mine shown assms have "foldOpt ?f (suggestionCards (Suggestion e)) ai = Some ai'"
          by (simp add: turnUpdates_def)
        then show ?thesis by (rule fold)
      next
        case False
        with mine shown assms have "ai' = ai" by (simp add: turnUpdates_def)
        then show ?thesis by (simp add: viaMarks_refl)
      qed
    qed
  next
    case other: False
    show ?thesis
    proof (cases "DisproverName e \<noteq> '''' \<and> DisproverName e \<noteq> name ai")
      case True
      with other assms obtain ms where "ai' = ai\<lparr>unresolvedSuggestions := ms\<rparr>"
        by (auto simp: turnUpdates_def)
      then show ?thesis by (simp add: viaMarks_tracked[OF viaMarks_refl])
    next
      case False
      with other assms have "ai' = ai" by (auto simp: turnUpdates_def)
      then show ?thesis by (simp add: viaMarks_refl)
    qed
  qed
qed

lemma processTurnEvent_via: "processTurnEvent ai e = Some ai' \<Longrightarrow> viaMarks ai ai'"
  unfolding processTurnEvent_def
  by (auto split: if_splits option.splits dest!: directReveal_via turnUpdates_via runDeductionLoop_via
        intro: viaMarks_trans)

lemma HandleEvent_via: "HandleEvent ai e = Some ai' \<Longrightarrow> viaMarks ai ai'"
  by (cases e) (auto dest: processTurnEvent_via intro: viaMarks_refl)

lemma receiveStep_via:
  "map_option snd (markCardLocation (a\<lparr>hand := finsert c (hand a)\<rparr>) c (name a)) = Some a' \<Longrightarrow>
     viaMarks a a'"
  by (auto intro: viaMarks_mark[OF viaMarks_hand[OF viaMarks_refl]])

lemma ReceiveHand_via:
  assumes "ReceiveHand ai cards = Some ai'"
  shows "viaMarks ai ai'"
proof -
  let ?f = "\<lambda>c a. map_option snd (markCardLocation (a\<lparr>hand := finsert c (hand a)\<rparr>) c (name a))"
  from assms obtain a1 where f: "foldOpt ?f cards ai = Some a1" and l: "runDeductionLoop a1 = Some ai'"
    by (auto simp: ReceiveHand_def split: option.splits)
  from foldOpt_via[where f = ?f and g = "\<lambda>a. a", OF receiveStep_via f] have "viaMarks ai a1" .
  with runDeductionLoop_via[OF l] show ?thesis by (meson viaMarks_trans)
qed

lemma rowsPresent_hand [simp]: "rowsPresent (a\<lparr>hand := h\<rparr>) = rowsPresent a"
  by (simp add: rowsPresent_def)

lemma rowsPresent_tracked [simp]: "rowsPresent (a\<lparr>unresolvedSuggestions := ms\<rparr>) = rowsPresent a"
  by (simp add: rowsPresent_def)

lemma runDeductionLoop_total:
  "rowsPresent ai \<Longrightarrow> \<exists>ai'. runDeductionLoop ai = Some ai'"
  using deductionLoopFrom_total[of ai 0] by (auto simp: runDeductionLoop_def)

lemma directReveal_total: "rowsPresent ai \<Longrightarrow> \<exists>ai'. directReveal ai e = Some ai'"
  using mark_total[of ai "RevealedCard e" "DisproverName e"] by (auto simp: directReveal_def)

lemma turnUpdates_total:
  assumes "rowsPresent ai"
  shows "\<exists>ai'. turnUpdates ai e = Some ai'"
proof -
  let ?f = markUnlessHeld
  have step: "\<And>c a. rowsPresent a \<Longrightarrow> \<exists>a'. ?f c a = Some a' \<and> rowsPresent a'"
  proof -
    fix c a assume r: "rowsPresent a"
    from mark_total[OF r, of c "''solution''"] obtain b a1 where
      m: "markCardLocation a c ''solution'' = Some (b, a1)" by blast
    from mark_rowsPresent[OF r m] m r show "\<exists>a'. ?f c a = Some a' \<and> rowsPresent a'"
      by (auto simp: markUnlessHeld_def)
  qed
  from foldOpt_total[where I = rowsPresent and f = ?f, OF step assms]
  obtain a2 where "foldOpt ?f (suggestionCards (Suggestion e)) ai = Some a2" by blast
  moreover from mark_total[OF assms, of "RevealedCard e" "DisproverName e"] obtain b a1 where
    "markCardLocation ai (RevealedCard e) (DisproverName e) = Some (b, a1)" by blast
  ultimately show ?thesis by (auto simp: turnUpdates_def)
qed

lemma processTurnEvent_total:
  assumes "rowsPresent ai"
  shows "\<exists>ai'. processTurnEvent ai e = Some ai'"
proof (cases "SuggesterName e = ''Game Event''")
  case True
  with directReveal_total[OF assms, of e] show ?thesis by (simp add: processTurnEvent_def)
next
  case False
  from turnUpdates_total[OF assms, of e] obtain a1 where t: "turnUpdates ai e = Some a1" by blast
  from turnUpdates_via[OF t] assms have "rowsPresent a1" by (rule viaMarks_rowsPresent)
  from runDeductionLoop_total[OF this] t False show ?thesis by (simp add: processTurnEvent_def)
qed

lemma HandleEvent_total: "rowsPresent ai \<Longrightarrow> \<exists>ai'. HandleEvent ai e = Some ai'"
  by (cases e) (auto dest: processTurnEvent_total)

lemma ReceiveHand_total:
  assumes "rowsPresent ai"
  shows "\<exists>ai'. ReceiveHand ai cards = Some ai'"
proof -
  let ?f = "\<lambda>c a. map_option snd (markCardLocation (a\<lparr>hand := finsert c (hand a)\<rparr>) c (name a))"
  have step: "\<And>c a. rowsPresent a \<Longrightarrow> \<exists>a'. ?f c a = Some a' \<and> rowsPresent a'"
  proof -
    fix c a assume r: "rowsPresent a"
    then have r': "rowsPresent (a\<lparr>hand := finsert c (hand a)\<rparr>)" by simp
    from mark_total[OF r', of c "name a"] obtain b a1 where
      m: "markCardLocation (a\<lparr>hand := finsert c (hand a)\<rparr>) c (name a) = Some (b, a1)" by blast
    from mark_rowsPresent[OF r' m] m show "\<exists>a'. ?f c a = Some a' \<and> rowsPresent a'" by auto
  qed
  from foldOpt_total[where I = rowsPresent and f = ?f, OF step assms]
  obtain a1 where f: "foldOpt ?f cards ai = Some a1" and r: "rowsPresent a1" by blast
  from runDeductionLoop_total[OF r] f show ?thesis by (simp add: ReceiveHand_def)
qed

lemma demoRevealed_eq: "processTurnEvent demoBrain demoReveal = Some demoRevealed"
  using processTurnEvent_total[OF demoBrain_rowsPresent, of demoReveal]
  by (auto simp: demoRevealed_def)

lemma demoRevealed_rowsPresent: "rowsPresent demoRevealed"
  using processTurnEvent_via[OF demoRevealed_eq] demoBrain_rowsPresent
  by (rule viaMarks_rowsPresent)

lemma demoRevealed_loop:
  "map_option (\<lambda>(n, conv, ai'). (n, conv)) (deductionLoopFrom 0 demoRevealed) = Some (2, True)"
  by code_simp

section \<open>Claims about the knowledge grid\<close>

text \<open>
  Claim C2. On an agent whose grid has a row for every catalog card and is mutually
  exclusive (both hold after \<^verbatim>\<open>Setup\<close> and are kept by every operation), for a catalog
  card \<open>c\<close> and a location \<open>l\<close> of the closed set: the mark succeeds, afterwards the cell
  of \<open>c\<close> at \<open>l\<close> is Yes and the cell of \<open>c\<close> at every other location of the closed set
  is No, and marking \<open>c\<close> at \<open>l\<close> again returns false and changes nothing.
\<close>

theorem mark_sets_exclusive_yes:
  assumes "CardToType (config ai) c \<noteq> None" "rowsPresent ai" "gridExclusive ai"
    "l \<in> set (allLocations ai)"
  shows "\<exists>b ai'. markCardLocation ai c l = Some (b, ai') \<and>
           cell (knowledge ai') c l = StatusYes \<and>
           (\<forall>l' \<in> set (allLocations ai). l' \<noteq> l \<longrightarrow> cell (knowledge ai') c l' = StatusNo) \<and>
           markCardLocation ai' c l = Some (False, ai')"
proof -
  from mark_total[OF assms(2), of c l] obtain b ai' where
    m: "markCardLocation ai c l = Some (b, ai')" by blast
  have y: "cell (knowledge ai') c l = StatusYes" using mark_Yes_after[OF m assms(1)] .
  have locs: "allLocations ai' = allLocations ai" using mark_fields(9)[OF m] .
  have cfg: "config ai' = config ai" using mark_fields(1)[OF m] .
  have ge: "gridExclusive ai'" using mark_gridExclusive[OF assms(3) m] .
  have others: "\<forall>l' \<in> set (allLocations ai). l' \<noteq> l \<longrightarrow> cell (knowledge ai') c l' = StatusNo"
    using ge y assms(4) unfolding gridExclusive_def locs by blast
  have again: "markCardLocation ai' c l = Some (False, ai')"
    using y assms(1) cfg by (simp add: markCardLocation_def)
  from m y others again show ?thesis by blast
qed

theorem mark_sets_exclusive_yes_witness:
  "\<exists>ai'. markCardLocation demoBrain ''Rope'' ''P2'' = Some (True, ai') \<and>
     cell (knowledge ai') ''Rope'' ''P2'' = StatusYes \<and>
     cell (knowledge ai') ''Rope'' ''P1'' = StatusNo \<and>
     cell (knowledge ai') ''Rope'' ''P3'' = StatusNo \<and>
     cell (knowledge ai') ''Rope'' ''solution'' = StatusNo \<and>
     markCardLocation ai' ''Rope'' ''P2'' = Some (False, ai')"
proof -
  have v: "CardToType (config demoBrain) ''Rope'' \<noteq> None"
    by (simp add: demoBrain_fields demoConfig_CardToType)
  have l: "''P2'' \<in> set (allLocations demoBrain)" by (simp add: demoBrain_fields)
  have n: "cell (knowledge demoBrain) ''Rope'' ''P2'' \<noteq> StatusYes"
    by (simp add: demoBrain_def Setup_cell)
  from mark_sets_exclusive_yes[OF v demoBrain_rowsPresent demoBrain_gridExclusive l]
  obtain b ai' where m: "markCardLocation demoBrain ''Rope'' ''P2'' = Some (b, ai')"
    and r: "cell (knowledge ai') ''Rope'' ''P2'' = StatusYes"
      "\<forall>l' \<in> set (allLocations demoBrain). l' \<noteq> ''P2'' \<longrightarrow> cell (knowledge ai') ''Rope'' l' = StatusNo"
      "markCardLocation ai' ''Rope'' ''P2'' = Some (False, ai')"
    by blast
  have "b" using m n r(1) by (cases b) (auto dest: mark_False)
  with m r show ?thesis by (simp add: demoBrain_fields)
qed

text \<open>
  Claim C4. For a card string that is not in the catalog (no entry in the card-to-category
  table) and any location, \<^verbatim>\<open>_markCardLocation\<close> returns false and leaves the whole agent,
  the knowledge grid included, as it was. The error report itself is a line written to the
  injected logger, which is outside the agent's state.
\<close>

theorem mark_unknown_card_noop:
  "CardToType (config ai) c = None \<Longrightarrow> markCardLocation ai c l = Some (False, ai)"
  by (simp add: markCardLocation_def)

theorem mark_unknown_card_noop_witness:
  "markCardLocation demoBrain ''Candlestick'' ''P2'' = Some (False, demoBrain)"
  using mark_unknown_card_noop[of demoBrain "''Candlestick''" "''P2''"]
  by (simp add: demoBrain_fields demoConfig_CardToType)

section \<open>Claims about the deduction loop and the events\<close>

text \<open>
  Claim C6. On a grid with a row for every catalog card the deduction loop returns, after
  at least one and at most ten passes; and when it left through a pass without change
  (it converged), running it again takes one pass and returns the same agent.
\<close>

theorem deduction_loop_bounded_idempotent:
  assumes "rowsPresent ai"
  shows "\<exists>n conv ai'. deductionLoopFrom 0 ai = Some (n, conv, ai') \<and> 1 \<le> n \<and> n \<le> 10 \<and>
           runDeductionLoop ai = Some ai' \<and>
           (conv \<longrightarrow> deductionLoopFrom 0 ai' = Some (1, True, ai') \<and> runDeductionLoop ai' = Some ai')"
proof -
  from deductionLoopFrom_total[OF assms, of 0] obtain n conv ai' where
    l: "deductionLoopFrom 0 ai = Some (n, conv, ai')" by blast
  from deductionLoopFrom_bounds[OF l] have b: "n \<le> 10"
    "conv \<longrightarrow> deductionPass ai' = Some (False, ai')" by auto
  have "1 \<le> n"
  proof -
    from l obtain ch a1 where p: "deductionPass ai = Some (ch, a1)"
      by (auto simp: deductionLoopFrom.simps[of 0 ai] split: option.splits)
    show ?thesis
    proof (cases ch)
      case False
      with l p show ?thesis by (auto simp: deductionLoopFrom.simps[of 0 ai])
    next
      case True
      with l p have "deductionLoopFrom (Suc 0) a1 = Some (n, conv, ai')"
        by (auto simp: deductionLoopFrom.simps[of 0 ai])
      from deductionLoopFrom_bounds[OF this] show ?thesis by simp
    qed
  qed
  moreover have "runDeductionLoop ai = Some ai'" using l by (simp add: runDeductionLoop_def)
  moreover have "conv \<longrightarrow> deductionLoopFrom 0 ai' = Some (1, True, ai') \<and> runDeductionLoop ai' = Some ai'"
    using b(2) by (auto simp: runDeductionLoop_def dest: deductionLoopFrom_fixed)
  ultimately show ?thesis using l b(1) by blast
qed

theorem deduction_loop_bounded_idempotent_witness:
  "\<exists>ai'. deductionLoopFrom 0 demoRevealed = Some (2, True, ai') \<and>
         deductionLoopFrom 0 ai' = Some (1, True, ai')"
  using deduction_loop_bounded_idempotent[OF demoRevealed_rowsPresent] demoRevealed_loop
  by auto

text \<open>
  Claim C10. A direct-reveal event (suggester "Game Event") whose disprover or whose
  revealed card is empty leaves the whole agent unchanged: grid, mysteries, recent targets,
  hand and every other field.
\<close>

theorem direct_reveal_incomplete_noop:
  "SuggesterName e = ''Game Event'' \<Longrightarrow> DisproverName e = '''' \<or> RevealedCard e = '''' \<Longrightarrow>
     HandleEvent ai (TurnResolved e) = Some ai"
  by (auto simp: processTurnEvent_def directReveal_def)

theorem direct_reveal_incomplete_noop_witness:
  "HandleEvent demoBrain (TurnResolved demoEmptyReveal) = Some demoBrain"
  using direct_reveal_incomplete_noop[of demoEmptyReveal demoBrain]
  by (simp add: demoEmptyReveal_def)

text \<open>
  Claim C1. The code at a direct reveal: in the game of \<open>demoBrain\<close>, the reveal that
  \<open>P2\<close> holds \<open>Green\<close> is processed by the direct-reveal branch alone; the deduction
  loop is not run. The loop, run on the resulting state, would mark \<open>Plum\<close>, the only
  suspect left, as the solution; after the event its cell is still Maybe.
\<close>

theorem direct_reveal_skips_deduction:
  "processTurnEvent demoBrain demoReveal = directReveal demoBrain demoReveal \<and>
   map_option (\<lambda>a. cell (knowledge a) ''Plum'' ''solution'')
     (processTurnEvent demoBrain demoReveal) = Some StatusMaybe \<and>
   map_option (\<lambda>a. cell (knowledge a) ''Plum'' ''solution'')
     (Option.bind (directReveal demoBrain demoReveal) runDeductionLoop) = Some StatusYes"
proof -
  have 1: "processTurnEvent demoBrain demoReveal = directReveal demoBrain demoReveal"
    by (simp add: processTurnEvent_def demoReveal_def)
  have 2: "map_option (\<lambda>a. cell (knowledge a) ''Plum'' ''solution'')
     (processTurnEvent demoBrain demoReveal) = Some StatusMaybe"
    by code_simp
  have 3: "map_option (\<lambda>a. cell (knowledge a) ''Plum'' ''solution'')
     (Option.bind (directReveal demoBrain demoReveal) runDeductionLoop) = Some StatusYes"
    by code_simp
  from 1 2 3 show ?thesis by blast
qed

text \<open>For every other event the loop runs after the event's updates.\<close>

lemma processTurnEvent_runs_loop:
  "SuggesterName e \<noteq> ''Game Event'' \<Longrightarrow>
     processTurnEvent ai e = Option.bind (turnUpdates ai e) runDeductionLoop"
  by (simp add: processTurnEvent_def split: option.splits)

section \<open>Claim about the accusation\<close>

lemma knownSolutionCard_found:
  assumes "'''' \<notin> set (CardListForCategory (config ai) cat)"
  shows "knownSolutionCard ai cat \<noteq> '''' \<longleftrightarrow>
     (\<exists>c \<in> set (CardListForCategory (config ai) cat). cell (knowledge ai) c ''solution'' = StatusYes)"
proof (cases "List.find (\<lambda>c. cell (knowledge ai) c ''solution'' = StatusYes)
                (CardListForCategory (config ai) cat)")
  case None
  then have "knownSolutionCard ai cat = ''''" by (simp add: knownSolutionCard_def)
  moreover from None have "\<not> (\<exists>c \<in> set (CardListForCategory (config ai) cat).
      cell (knowledge ai) c ''solution'' = StatusYes)"
    by (simp add: find_None_iff)
  ultimately show ?thesis by simp
next
  case (Some c)
  then have "c \<in> set (CardListForCategory (config ai) cat)" "cell (knowledge ai) c ''solution'' = StatusYes"
    by (auto simp: find_Some_iff)
  with Some assms show ?thesis by (auto simp: knownSolutionCard_def)
qed

lemma knownSolutionCard_is_yes:
  assumes "knownSolutionCard ai cat \<noteq> ''''"
  shows "knownSolutionCard ai cat \<in> set (CardListForCategory (config ai) cat) \<and>
         cell (knowledge ai) (knownSolutionCard ai cat) ''solution'' = StatusYes"
proof (cases "List.find (\<lambda>c. cell (knowledge ai) c ''solution'' = StatusYes)
                (CardListForCategory (config ai) cat)")
  case None
  with assms show ?thesis by (simp add: knownSolutionCard_def)
next
  case (Some c)
  then have "c \<in> set (CardListForCategory (config ai) cat)" "cell (knowledge ai) c ''solution'' = StatusYes"
    by (auto simp: find_Some_iff)
  with Some show ?thesis by (simp add: knownSolutionCard_def)
qed

lemma ShouldAccuse_unfold:
  "ShouldAccuse ai =
     (if knownSolutionCard ai CategorySuspect \<noteq> '''' \<and> knownSolutionCard ai CategoryWeapon \<noteq> '''' \<and>
         knownSolutionCard ai CategoryRoom \<noteq> ''''
      then Some [CategorySuspect \<mapsto> knownSolutionCard ai CategorySuspect,
                 CategoryWeapon \<mapsto> knownSolutionCard ai CategoryWeapon,
                 CategoryRoom \<mapsto> knownSolutionCard ai CategoryRoom]
      else None)"
  by (simp add: ShouldAccuse_def categories_def mapLen_def suggestionCards_def List.map_filter_simps)

text \<open>
  Claim C7. For a catalog in which no card is the empty string (the code's marker for "no
  card"), \<^verbatim>\<open>ShouldAccuse\<close> returns an accusation if and only if each of the three
  categories contains a card that is Yes at the solution; the accusation it returns names,
  for every category, a card of that category that is Yes at the solution. Otherwise it
  returns \<^verbatim>\<open>nil\<close>.
\<close>

theorem should_accuse_iff_all_known:
  assumes "\<forall>cat. '''' \<notin> set (CardListForCategory (config ai) cat)"
  shows "(ShouldAccuse ai \<noteq> None \<longleftrightarrow>
            (\<forall>cat. \<exists>c \<in> set (CardListForCategory (config ai) cat).
                     cell (knowledge ai) c ''solution'' = StatusYes)) \<and>
         (\<forall>solution. ShouldAccuse ai = Some solution \<longrightarrow>
            (\<forall>cat. \<exists>c \<in> set (CardListForCategory (config ai) cat).
                     solution cat = Some c \<and> cell (knowledge ai) c ''solution'' = StatusYes))"
proof -
  have all: "(\<forall>cat. P cat) \<longleftrightarrow> P CategorySuspect \<and> P CategoryWeapon \<and> P CategoryRoom" for P
    by (metis CardCategory.exhaust)
  have found: "knownSolutionCard ai cat \<noteq> '''' \<longleftrightarrow>
     (\<exists>c \<in> set (CardListForCategory (config ai) cat). cell (knowledge ai) c ''solution'' = StatusYes)"
    for cat using assms knownSolutionCard_found by blast
  have 1: "ShouldAccuse ai \<noteq> None \<longleftrightarrow>
            (\<forall>cat. \<exists>c \<in> set (CardListForCategory (config ai) cat).
                     cell (knowledge ai) c ''solution'' = StatusYes)"
  proof -
    have "(\<forall>cat. \<exists>c \<in> set (CardListForCategory (config ai) cat).
                     cell (knowledge ai) c ''solution'' = StatusYes) \<longleftrightarrow>
          (\<forall>cat. knownSolutionCard ai cat \<noteq> '''')"
      using found by simp
    also have "\<dots> \<longleftrightarrow> knownSolutionCard ai CategorySuspect \<noteq> '''' \<and>
        knownSolutionCard ai CategoryWeapon \<noteq> '''' \<and> knownSolutionCard ai CategoryRoom \<noteq> ''''"
      by (rule all)
    also have "\<dots> \<longleftrightarrow> ShouldAccuse ai \<noteq> None" by (simp add: ShouldAccuse_unfold)
    finally show ?thesis by simp
  qed

  have 2: "\<forall>cat. \<exists>c \<in> set (CardListForCategory (config ai) cat).
                     solution cat = Some c \<and> cell (knowledge ai) c ''solution'' = StatusYes"
    if s: "ShouldAccuse ai = Some solution" for solution
  proof -
    from s have k: "knownSolutionCard ai CategorySuspect \<noteq> ''''"
      "knownSolutionCard ai CategoryWeapon \<noteq> ''''" "knownSolutionCard ai CategoryRoom \<noteq> ''''"
      and e: "solution = [CategorySuspect \<mapsto> knownSolutionCard ai CategorySuspect,
                 CategoryWeapon \<mapsto> knownSolutionCard ai CategoryWeapon,
                 CategoryRoom \<mapsto> knownSolutionCard ai CategoryRoom]"
      by (auto simp: ShouldAccuse_unfold split: if_splits)
    show ?thesis
    proof
      fix cat
      show "\<exists>c \<in> set (CardListForCategory (config ai) cat).
                     solution cat = Some c \<and> cell (knowledge ai) c ''solution'' = StatusYes"
        using k knownSolutionCard_is_yes[of ai cat] by (cases cat) (auto simp: e)
    qed
  qed
  from 1 2 show ?thesis by blast
qed

lemma demoConfig_lists:
  "Suspects demoConfig = [''Green'', ''Plum'']" "Weapons demoConfig = [''Rope'', ''Wrench'']"
  "Rooms demoConfig = [''Hall'', ''Study'']"
  by (simp_all add: demoConfig_def prepareConfig_def Let_def)

lemma demoSolved_eq: "HandleEvent demoBrain (TurnResolved demoUndisproved) = Some demoSolved"
  using HandleEvent_total[OF demoBrain_rowsPresent, of "TurnResolved demoUndisproved"]
  by (auto simp: demoSolved_def)

lemma demoSolved_config: "config demoSolved = demoConfig"
  using viaMarks_fields(1)[OF HandleEvent_via[OF demoSolved_eq]] by (simp add: demoBrain_fields)

lemma demoSolved_accuse:
  "map_option (\<lambda>solution. map solution categories) (ShouldAccuse demoSolved) =
     Some [Some ''Plum'', Some ''Wrench'', Some ''Study'']"
  by code_simp

theorem should_accuse_iff_all_known_witness:
  "(\<exists>solution. ShouldAccuse demoSolved = Some solution \<and>
      solution CategorySuspect = Some ''Plum'' \<and> solution CategoryWeapon = Some ''Wrench'' \<and>
      solution CategoryRoom = Some ''Study'') \<and>
   (\<exists>c \<in> set (Suspects demoConfig). cell (knowledge demoSolved) c ''solution'' = StatusYes) \<and>
   ShouldAccuse demoBrain = None"
proof -
  have h: "\<forall>cat. '''' \<notin> set (CardListForCategory (config demoSolved) cat)"
  proof
    fix cat show "'''' \<notin> set (CardListForCategory (config demoSolved) cat)"
      by (cases cat) (simp_all add: demoSolved_config demoConfig_lists)
  qed
  have h0: "\<forall>cat. '''' \<notin> set (CardListForCategory (config demoBrain) cat)"
  proof
    fix cat show "'''' \<notin> set (CardListForCategory (config demoBrain) cat)"
      by (cases cat) (simp_all add: demoBrain_fields demoConfig_lists)
  qed
  from demoSolved_accuse obtain solution where s: "ShouldAccuse demoSolved = Some solution"
    by (cases "ShouldAccuse demoSolved") auto
  with demoSolved_accuse
  have m: "map solution categories = [Some ''Plum'', Some ''Wrench'', Some ''Study'']"
    by simp

  from should_accuse_iff_all_known[OF h] s
  have "\<exists>c \<in> set (CardListForCategory (config demoSolved) CategorySuspect).
           cell (knowledge demoSolved) c ''solution'' = StatusYes" by blast
  then have a: "\<exists>c \<in> set (Suspects demoConfig). cell (knowledge demoSolved) c ''solution'' = StatusYes"
    by (simp add: demoSolved_config)
  have "\<not> (\<exists>c \<in> set (CardListForCategory (config demoBrain) CategorySuspect).
           cell (knowledge demoBrain) c ''solution'' = StatusYes)"
    by (simp add: demoBrain_def Setup_cell)
  with should_accuse_iff_all_known[OF h0] have n: "ShouldAccuse demoBrain = None" by blast
  from s m a n show ?thesis by (auto simp: categories_def)
qed

section \<open>Claim about the grid invariant\<close>

lemma atMostOneYes_tracked [simp]:
  "atMostOneYes (b\<lparr>unresolvedSuggestions := ms\<rparr>) = atMostOneYes b"
  by (simp add: atMostOneYes_def allLocations_def)

lemma atMostOneYes_hand [simp]: "atMostOneYes (b\<lparr>hand := h\<rparr>) = atMostOneYes b"
  by (simp add: atMostOneYes_def allLocations_def)

lemma atMostOneYes_frame:
  "knowledge b = knowledge a \<Longrightarrow> players b = players a \<Longrightarrow> atMostOneYes b = atMostOneYes a"
  by (simp add: atMostOneYes_def allLocations_def)

lemma mark_atMostOneYes:
  assumes "atMostOneYes ai" "markCardLocation ai c l = Some (b, ai')"
  shows "atMostOneYes ai'"
proof (cases b)
  case False
  with assms(2) have "ai' = ai" by (auto dest: mark_False)
  with assms(1) show ?thesis by simp
next
  case True
  with assms(2) have m: "markCardLocation ai c l = Some (True, ai')" by simp
  have locs: "allLocations ai' = allLocations ai" using mark_fields(9)[OF m] .
  show ?thesis
    unfolding atMostOneYes_def locs
  proof (intro allI ballI impI)
    fix c' l1 l2
    assume l: "l1 \<in> set (allLocations ai)" "l2 \<in> set (allLocations ai)"
      and y: "cell (knowledge ai') c' l1 = StatusYes \<and> cell (knowledge ai') c' l2 = StatusYes"
    show "l1 = l2"
    proof (cases "c' = c")
      case True
      with y l have "l1 = l" "l2 = l"
        by (auto simp: mark_True_cell[OF m] split: if_splits)
      then show ?thesis by simp
    next
      case False
      with y have "cell (knowledge ai) c' l1 = StatusYes \<and> cell (knowledge ai) c' l2 = StatusYes"
        by (simp add: mark_True_cell[OF m])
      with assms(1) l show ?thesis unfolding atMostOneYes_def by blast
    qed
  qed
qed

lemma viaMarks_atMostOneYes: "viaMarks a b \<Longrightarrow> atMostOneYes a \<Longrightarrow> atMostOneYes b"
proof (induction rule: viaMarks.induct)
  case (viaMarks_mark a b c l ch b')
  then show ?case using mark_atMostOneYes by blast
qed simp_all

lemma Setup_atMostOneYes: "atMostOneYes (Setup ch r cfg ps me)"
  by (simp add: atMostOneYes_def Setup_cell)

lemma mark_keeps_yes:
  assumes "markCardLocation ai c l = Some (b, ai')" "cell (knowledge ai) c' l' = StatusYes"
    "c' \<noteq> c \<or> l' = l"
  shows "cell (knowledge ai') c' l' = StatusYes"
proof (cases b)
  case False
  with assms(1) have "ai' = ai" by (auto dest: mark_False)
  with assms(2) show ?thesis by simp
next
  case True
  with assms(1) have m: "markCardLocation ai c l = Some (True, ai')" by simp
  from assms(2,3) show ?thesis by (auto simp: mark_True_cell[OF m])
qed

lemma Choose_total: "\<exists>c l r'. Choose ch r cards = Some (c, l, r')"
proof (cases ch)
  case RandomChooser
  show ?thesis
  proof (cases "length cards = 0")
    case True
    with RandomChooser show ?thesis by simp
  next
    case False
    then have "0 < length cards" by simp
    from Intn_total[OF this, of r] obtain i r' where "Intn r (length cards) = Some (i, r')"
      by blast
    with RandomChooser False show ?thesis by simp
  qed
next
  case DeterministicChooser
  then show ?thesis by simp
qed

lemma pickUnknownCard_frame:
  assumes "pickUnknownCard ai cat = Some (c, ai')"
  shows "knowledge ai' = knowledge ai \<and> players ai' = players ai \<and> hand ai' = hand ai \<and>
         chooser ai' = chooser ai \<and> unresolvedSuggestions ai' = unresolvedSuggestions ai \<and>
         CardToType (config ai') = CardToType (config ai)"
proof -
  have cfg: "CardToType (setCardListForCategory g cat l) = CardToType g" for g l
    by (cases cat) simp_all
  from assms consider r where "ai' = ai\<lparr>rand := r\<rparr>"
    | r l where "ai' = ai\<lparr>rand := r, config := setCardListForCategory (config ai) cat l\<rparr>"
    unfolding pickUnknownCard_def Let_def
    by (auto split: if_splits option.splits)
  then show ?thesis by cases (simp_all add: cfg)
qed

lemma gridFrame_refl: "gridFrame a a"
  by (simp add: gridFrame_def)

lemma gridFrame_trans: "gridFrame a b \<Longrightarrow> gridFrame b c \<Longrightarrow> gridFrame a c"
  by (simp add: gridFrame_def)

lemma pickUnknownCard_gridFrame: "pickUnknownCard ai cat = Some (c, ai') \<Longrightarrow> gridFrame ai ai'"
  using pickUnknownCard_frame[of ai cat c ai'] by (simp add: gridFrame_def)

lemma fillStep_gridFrame: "fillStep cat st = Some st' \<Longrightarrow> gridFrame (snd st) (snd st')"
  by (cases st) (auto simp: fillStep_def split: if_splits option.splits
        intro: gridFrame_refl pickUnknownCard_gridFrame)

lemma foldOpt_gridFrame:
  assumes step: "\<And>x s s'. f x s = Some s' \<Longrightarrow> gridFrame (g s) (g s')"
  shows "foldOpt f xs s = Some s' \<Longrightarrow> gridFrame (g s) (g s')"
proof (induction xs arbitrary: s)
  case Nil
  then show ?case by (simp add: gridFrame_refl)
next
  case (Cons x xs)
  then obtain s1 where s1: "f x s = Some s1" "foldOpt f xs s1 = Some s'"
    by (auto split: option.splits)
  from step[OF s1(1)] Cons.IH[OF s1(2)] show ?case by (rule gridFrame_trans)
qed

lemma buildSuggestionAroundTarget_gridFrame:
  assumes "buildSuggestionAroundTarget ai t = Some (sg, ai')"
  shows "gridFrame ai ai'"
proof -
  obtain hs r where sh: "Shuffle (rand ai) (Hand ai) = (hs, r)"
    by (cases "Shuffle (rand ai) (Hand ai)") auto
  have f0: "gridFrame ai (ai\<lparr>rand := r\<rparr>)" by (simp add: gridFrame_def)
  from assms sh consider "ai' = ai\<lparr>rand := r\<rparr>"
    | sg0 where "foldOpt fillStep [CategorySuspect, CategoryWeapon, CategoryRoom] (sg0, ai\<lparr>rand := r\<rparr>)
        = Some (sg, ai')"
    by (auto simp: buildSuggestionAroundTarget_def Let_def split: if_splits)
  then show ?thesis
  proof cases
    case 1
    with f0 show ?thesis by simp
  next
    case 2
    from foldOpt_gridFrame[where f = fillStep and g = snd, OF fillStep_gridFrame 2]
    have "gridFrame (ai\<lparr>rand := r\<rparr>) ai'" by simp
    with f0 show ?thesis by (rule gridFrame_trans)
  qed
qed

lemma surgicalTarget_gridFrame: "surgicalTarget ai iter = Some (t, ai') \<Longrightarrow> gridFrame ai ai'"
  by (auto simp: surgicalTarget_def gridFrame_def split: option.splits)

lemma SurgicalStrike_gridFrame:
  assumes "SurgicalStrike_BuildSuggestion ai iter = Some (sg, ai')"
  shows "gridFrame ai ai'"
proof -
  from assms consider "ai' = ai"
    | t a1 s where "surgicalTarget ai iter = Some (t, a1)"
        "buildSuggestionAroundTarget (a1\<lparr>recentSurgicalTargets := Push (recentSurgicalTargets a1) t\<rparr>) t
           = Some (s, ai')"
    by (auto simp: SurgicalStrike_BuildSuggestion_def split: if_splits option.splits)
  then show ?thesis
  proof cases
    case 1
    then show ?thesis by (simp add: gridFrame_refl)
  next
    case 2
    from surgicalTarget_gridFrame[OF 2(1)]
    have "gridFrame ai (a1\<lparr>recentSurgicalTargets := Push (recentSurgicalTargets a1) t\<rparr>)"
      by (simp add: gridFrame_def)
    with buildSuggestionAroundTarget_gridFrame[OF 2(2)] show ?thesis
      by (meson gridFrame_trans)
  qed
qed

lemma gridFrame_atMostOneYes: "gridFrame a b \<Longrightarrow> atMostOneYes a \<Longrightarrow> atMostOneYes b"
  using atMostOneYes_frame[of b a] by (simp add: gridFrame_def)

text \<open>
  Claim C3, as the code has it. Every operation keeps the invariant that a card is Yes at
  no more than one location of the closed set: a mark, the deduction loop, the handling of
  an event, the intake of a hand and the building of a suggestion. A mark of card \<open>c\<close> at
  location \<open>l\<close> keeps every Yes of another card and a Yes of \<open>c\<close> at \<open>l\<close> itself. (A
  Yes of \<open>c\<close> at another location is what the mark resets: see the counterexample.)
\<close>

theorem at_most_one_yes_preserved:
  assumes "atMostOneYes ai"
  shows "(\<forall>c l b ai'. markCardLocation ai c l = Some (b, ai') \<longrightarrow>
            atMostOneYes ai' \<and>
            (\<forall>c' l'. cell (knowledge ai) c' l' = StatusYes \<and> (c' \<noteq> c \<or> l' = l) \<longrightarrow>
                     cell (knowledge ai') c' l' = StatusYes)) \<and>
         (\<forall>ai'. runDeductionLoop ai = Some ai' \<longrightarrow> atMostOneYes ai') \<and>
         (\<forall>e ai'. HandleEvent ai e = Some ai' \<longrightarrow> atMostOneYes ai') \<and>
         (\<forall>cards ai'. ReceiveHand ai cards = Some ai' \<longrightarrow> atMostOneYes ai') \<and>
         (\<forall>iter sg ai'. SurgicalStrike_BuildSuggestion ai iter = Some (sg, ai') \<longrightarrow> atMostOneYes ai')"
proof (intro conjI allI impI)
  fix c l b ai' assume "markCardLocation ai c l = Some (b, ai')"
  with assms show "atMostOneYes ai'" by (rule mark_atMostOneYes)
next
  fix c l b ai' c' l'
  assume "markCardLocation ai c l = Some (b, ai')"
    "cell (knowledge ai) c' l' = StatusYes \<and> (c' \<noteq> c \<or> l' = l)"
  then show "cell (knowledge ai') c' l' = StatusYes" using mark_keeps_yes by blast
next
  fix ai' assume "runDeductionLoop ai = Some ai'"
  from runDeductionLoop_via[OF this] assms show "atMostOneYes ai'" by (rule viaMarks_atMostOneYes)
next
  fix e ai' assume "HandleEvent ai e = Some ai'"
  from HandleEvent_via[OF this] assms show "atMostOneYes ai'" by (rule viaMarks_atMostOneYes)
next
  fix cards ai' assume "ReceiveHand ai cards = Some ai'"
  from ReceiveHand_via[OF this] assms show "atMostOneYes ai'" by (rule viaMarks_atMostOneYes)
next
  fix iter sg ai' assume "SurgicalStrike_BuildSuggestion ai iter = Some (sg, ai')"
  from SurgicalStrike_gridFrame[OF this] assms show "atMostOneYes ai'"
    by (rule gridFrame_atMostOneYes)
qed

lemma demoDealt_eq: "ReceiveHand demoBrain [''Green'', ''Rope''] = Some demoDealt"
  using ReceiveHand_total[OF demoBrain_rowsPresent, of "[''Green'', ''Rope'']"]
  by (auto simp: demoDealt_def)

theorem at_most_one_yes_preserved_witness:
  "atMostOneYes demoDealt \<and> cell (knowledge demoDealt) ''Rope'' ''P1'' = StatusYes \<and>
   cell (knowledge demoDealt) ''Rope'' ''P2'' = StatusNo"
proof -
  have "atMostOneYes demoBrain" unfolding demoBrain_def by (rule Setup_atMostOneYes)
  from at_most_one_yes_preserved[OF this] demoDealt_eq have "atMostOneYes demoDealt" by blast
  moreover have "cell (knowledge demoDealt) ''Rope'' ''P1'' = StatusYes" by code_simp
  moreover have "cell (knowledge demoDealt) ''Rope'' ''P2'' = StatusNo" by code_simp
  ultimately show ?thesis by simp
qed

text \<open>
  Claim C3 as stated fails: after the agent \<open>P1\<close> has received \<open>Rope\<close> in its hand,
  the card is Yes at \<open>P1\<close>; marking it at \<open>P2\<close>, directly or through the direct reveal
  "P2 holds Rope", changes the cell at \<open>P1\<close> from Yes to No.
\<close>

theorem mark_revokes_yes_counterexample:
  "cell (knowledge demoDealt) ''Rope'' ''P1'' = StatusYes \<and>
   map_option (\<lambda>(b, a). (b, cell (knowledge a) ''Rope'' ''P1'', cell (knowledge a) ''Rope'' ''P2''))
     (markCardLocation demoDealt ''Rope'' ''P2'') = Some (True, StatusNo, StatusYes) \<and>
   map_option (\<lambda>a. (cell (knowledge a) ''Rope'' ''P1'', cell (knowledge a) ''Rope'' ''P2''))
     (HandleEvent demoDealt (TurnResolved demoRopeReveal)) = Some (StatusNo, StatusYes)"
  by code_simp

section \<open>Claim about the mystery tracker\<close>

lemma fcard_1_fsingleton: "fcard S = 1 \<Longrightarrow> \<exists>x. S = {|x|}"
proof -
  assume "fcard S = 1"
  then have "card (fset S) = 1" by (simp add: fcard.rep_eq)
  then obtain x where "fset S = {x}" by (rule card_1_singletonE)
  then have "S = {|x|}" by (metis bot_fset.rep_eq finsert.rep_eq fset_inverse)
  then show ?thesis by blast
qed

lemma mapKeys_fsingleton: "hd (mapKeys {|x|}) = x"
  by (simp add: mapKeys_def sorted_list_of_fset.rep_eq)

lemma pruneStep_unfold:
  "pruneStep m (ch, rem, ai) =
     (if fcard (prunedCardsOf ai m) = 1 then
        (case markCardLocation ai (hd (mapKeys (prunedCardsOf ai m))) (Disprover m) of
           None \<Rightarrow> None
         | Some (b, ai') \<Rightarrow>
             Some ((ch \<or> fcard (prunedCardsOf ai m) < fcard (PossibleCards m)) \<or> b, rem, ai'))
      else if fcard (prunedCardsOf ai m) > 1 then
        Some (ch \<or> fcard (prunedCardsOf ai m) < fcard (PossibleCards m),
              rem @ [m\<lparr>PossibleCards := prunedCardsOf ai m\<rparr>], ai)
      else Some (ch \<or> fcard (prunedCardsOf ai m) < fcard (PossibleCards m), rem, ai))"
proof -
  have same: "\<not> fcard (prunedCardsOf ai m) < fcard (PossibleCards m) \<Longrightarrow>
      m = m\<lparr>PossibleCards := prunedCardsOf ai m\<rparr>"
    unfolding prunedCardsOf_def by (simp add: ffilter_fcard_eq)
  show ?thesis
    unfolding pruneStep_def Let_def prunedCardsOf_def[symmetric]
    using same by (simp split: option.splits)
qed

lemma prunedCardsOf_subset: "prunedCardsOf ai m |\<subseteq>| PossibleCards m"
  by (auto simp: prunedCardsOf_def)

lemma pruneStep_result:
  assumes "pruneStep m (ch, rem, ai) = Some (ch', rem', ai')"
  shows "rem' = rem \<or> (\<exists>m'. rem' = rem @ [m'] \<and> prunedFrom m m')"
proof (cases "fcard (prunedCardsOf ai m) > 1")
  case True
  with assms have "rem' = rem @ [m\<lparr>PossibleCards := prunedCardsOf ai m\<rparr>]"
    by (auto simp: pruneStep_unfold)
  moreover have "prunedFrom m (m\<lparr>PossibleCards := prunedCardsOf ai m\<rparr>)"
    using True prunedCardsOf_subset[of ai m] by (simp add: prunedFrom_def)
  ultimately show ?thesis by blast
next
  case False
  with assms have "rem' = rem"
    by (auto simp: pruneStep_unfold split: if_splits option.splits)
  then show ?thesis by simp
qed

lemma foldOpt_prune_subseq:
  "foldOpt pruneStep ms (ch, rem, ai) = Some (ch', rem', ai') \<Longrightarrow>
     \<exists>kept src. rem' = rem @ kept \<and> subseq src ms \<and> list_all2 prunedFrom src kept"
proof (induction ms arbitrary: ch rem ai)
  case Nil
  then show ?case by simp
next
  case (Cons m ms)
  then obtain c1 r1 a1 where s: "pruneStep m (ch, rem, ai) = Some (c1, r1, a1)"
    and f: "foldOpt pruneStep ms (c1, r1, a1) = Some (ch', rem', ai')"
    by (auto split: option.splits)
  from Cons.IH[OF f] obtain kept src where k: "rem' = r1 @ kept" "subseq src ms"
    "list_all2 prunedFrom src kept" by blast
  from pruneStep_result[OF s] show ?case
  proof
    assume "r1 = rem"
    with k have "rem' = rem @ kept" "subseq src (m # ms)" by auto
    with k(3) show ?thesis by blast
  next
    assume "\<exists>m'. r1 = rem @ [m'] \<and> prunedFrom m m'"
    then obtain m' where m': "r1 = rem @ [m']" "prunedFrom m m'" by blast
    with k have "rem' = rem @ (m' # kept)" "subseq (m # src) (m # ms)"
      "list_all2 prunedFrom (m # src) (m' # kept)" by simp_all
    then show ?thesis by blast
  qed
qed

lemma prune_subseq:
  assumes "pruneAndSolveMysteries ai = Some (ch, ai')"
  shows "\<exists>src. subseq src (unresolvedSuggestions ai) \<and>
           list_all2 prunedFrom src (unresolvedSuggestions ai')"
proof -
  from assms obtain c r a1 where
    f: "foldOpt pruneStep (unresolvedSuggestions ai) (False, [], ai) = Some (c, r, a1)"
    and e: "ai' = a1\<lparr>unresolvedSuggestions := r\<rparr>"
    by (auto simp: pruneAndSolveMysteries_def split: option.splits)
  from foldOpt_prune_subseq[OF f] e show ?thesis by auto
qed

text \<open>
  Claim C5, as the code has it. When the pass reaches a tracked mystery, the mystery is
  judged by those of its candidates that are not known No at its disprover. With two or
  more of them it stays tracked, behind the mysteries kept before it, with exactly these
  candidates, and the agent is unchanged. With exactly one, it is dropped and that card
  is marked at the disprover, so that a catalog card is Yes there afterwards. With none,
  it is dropped as well and nothing is marked. For the whole pass: it returns, and the
  mysteries tracked afterwards are, in order, mysteries tracked before, each with its
  disprover, a subset of its candidates and at least two of them.
\<close>

theorem prune_mystery_lifecycle:
  assumes "rowsPresent ai"
  shows "(\<exists>ch' rem' ai'. pruneStep m (ch, rem, ai) = Some (ch', rem', ai') \<and>
           (2 \<le> fcard (prunedCardsOf ai m) \<longrightarrow>
              rem' = rem @ [m\<lparr>PossibleCards := prunedCardsOf ai m\<rparr>] \<and> ai' = ai) \<and>
           (fcard (prunedCardsOf ai m) = 1 \<longrightarrow> rem' = rem \<and>
              (\<exists>x b. prunedCardsOf ai m = {|x|} \<and>
                 markCardLocation ai x (Disprover m) = Some (b, ai') \<and>
                 (CardToType (config ai) x \<noteq> None \<longrightarrow>
                    cell (knowledge ai') x (Disprover m) = StatusYes))) \<and>
           (fcard (prunedCardsOf ai m) = 0 \<longrightarrow> rem' = rem \<and> ai' = ai)) \<and>
         (\<exists>changed ai'. pruneAndSolveMysteries ai = Some (changed, ai') \<and>
            (\<exists>src. subseq src (unresolvedSuggestions ai) \<and>
               list_all2 prunedFrom src (unresolvedSuggestions ai')))"
proof
  consider (keep) "2 \<le> fcard (prunedCardsOf ai m)" | (one) "fcard (prunedCardsOf ai m) = 1"
    | (none) "fcard (prunedCardsOf ai m) = 0"
    by linarith
  then show "\<exists>ch' rem' ai'. pruneStep m (ch, rem, ai) = Some (ch', rem', ai') \<and>
           (2 \<le> fcard (prunedCardsOf ai m) \<longrightarrow>
              rem' = rem @ [m\<lparr>PossibleCards := prunedCardsOf ai m\<rparr>] \<and> ai' = ai) \<and>
           (fcard (prunedCardsOf ai m) = 1 \<longrightarrow> rem' = rem \<and>
              (\<exists>x b. prunedCardsOf ai m = {|x|} \<and>
                 markCardLocation ai x (Disprover m) = Some (b, ai') \<and>
                 (CardToType (config ai) x \<noteq> None \<longrightarrow>
                    cell (knowledge ai') x (Disprover m) = StatusYes))) \<and>
           (fcard (prunedCardsOf ai m) = 0 \<longrightarrow> rem' = rem \<and> ai' = ai)"
  proof cases
    case keep
    then have "pruneStep m (ch, rem, ai) =
        Some (ch \<or> fcard (prunedCardsOf ai m) < fcard (PossibleCards m),
              rem @ [m\<lparr>PossibleCards := prunedCardsOf ai m\<rparr>], ai)"
      by (simp add: pruneStep_unfold)
    with keep show ?thesis by (auto simp del: fcard_0_eq)
  next
    case none
    then have "pruneStep m (ch, rem, ai) =
        Some (ch \<or> fcard (prunedCardsOf ai m) < fcard (PossibleCards m), rem, ai)"
      by (simp add: pruneStep_unfold del: fcard_0_eq)
    with none show ?thesis by (simp del: fcard_0_eq)
  next
    case one
    then obtain x where x: "prunedCardsOf ai m = {|x|}" using fcard_1_fsingleton by blast
    from mark_total[OF assms, of x "Disprover m"] obtain b a1 where
      mk: "markCardLocation ai x (Disprover m) = Some (b, a1)" by blast
    from one x mk have st: "pruneStep m (ch, rem, ai) =
        Some ((ch \<or> fcard (prunedCardsOf ai m) < fcard (PossibleCards m)) \<or> b, rem, a1)"
      by (simp add: pruneStep_unfold mapKeys_fsingleton)
    have y: "CardToType (config ai) x \<noteq> None \<longrightarrow> cell (knowledge a1) x (Disprover m) = StatusYes"
      using mark_Yes_after[OF mk] by blast
    from one x mk y show ?thesis unfolding st by auto
  qed
next
  from prune_total[OF assms] obtain changed ai' where
    p: "pruneAndSolveMysteries ai = Some (changed, ai')" by blast
  from prune_subseq[OF p] p
  show "\<exists>changed ai'. pruneAndSolveMysteries ai = Some (changed, ai') \<and>
            (\<exists>src. subseq src (unresolvedSuggestions ai) \<and>
               list_all2 prunedFrom src (unresolvedSuggestions ai'))"
    by blast
qed

lemma the_Some: "\<exists>y. x = Some y \<Longrightarrow> x = Some (the x)"
  by auto

lemma demoOneCard_eq: "ReceiveHand demoBrain [''Green''] = Some demoOneCard"
  unfolding demoOneCard_def by (rule the_Some) (rule ReceiveHand_total[OF demoBrain_rowsPresent])

lemma demoOneCard_via: "viaMarks demoBrain demoOneCard"
  using demoOneCard_eq by (rule ReceiveHand_via)

lemma demoSolvable_eq: "turnUpdates demoOneCard demoBadDisproval = Some demoSolvable"
  unfolding demoSolvable_def
  by (rule the_Some) (rule turnUpdates_total[OF viaMarks_rowsPresent[OF demoOneCard_via demoBrain_rowsPresent]])

lemma demoSolvable_via: "viaMarks demoBrain demoSolvable"
  using turnUpdates_via[OF demoSolvable_eq] demoOneCard_via by (rule viaMarks_trans)

theorem prune_mystery_lifecycle_witness:
  "\<exists>ch' ai'. pruneStep (hd (unresolvedSuggestions demoSolvable)) (False, [], demoSolvable)
       = Some (ch', [], ai') \<and>
     cell (knowledge ai') ''Rope'' ''P2'' = StatusYes"
proof -
  let ?m = "hd (unresolvedSuggestions demoSolvable)"
  have r: "rowsPresent demoSolvable"
    using demoSolvable_via demoBrain_rowsPresent by (rule viaMarks_rowsPresent)
  have c: "config demoSolvable = demoConfig"
    using viaMarks_fields(1)[OF demoSolvable_via] by (simp add: demoBrain_fields)
  have p: "prunedCardsOf demoSolvable ?m = {|''Rope''|}" by code_simp
  have d: "Disprover ?m = ''P2''" by code_simp
  have one: "fcard (prunedCardsOf demoSolvable ?m) = 1" unfolding p by (simp add: fcard_finsert_if)
  from prune_mystery_lifecycle[OF r, of ?m False "[]"] one
  obtain ch' rem' ai' x b where st: "pruneStep ?m (False, [], demoSolvable) = Some (ch', rem', ai')"
    and e: "rem' = []" "prunedCardsOf demoSolvable ?m = {|x|}"
      "CardToType (config demoSolvable) x \<noteq> None \<longrightarrow> cell (knowledge ai') x (Disprover ?m) = StatusYes"
    by auto
  from e(2) p have "x = ''Rope''" by simp
  with e(3) c d have "cell (knowledge ai') ''Rope'' ''P2'' = StatusYes"
    by (simp add: demoConfig_CardToType)
  with st e(1) show ?thesis by blast
qed

text \<open>
  Claim C5 as stated fails where no candidate is left: \<open>P1\<close> holds \<open>Green\<close> and
  \<open>Rope\<close> and hears that \<open>P2\<close> disproved a suggestion of these two cards. The pass
  removes the mystery although its candidate set shrank to zero cards, not to one, and no
  card becomes Yes at \<open>P2\<close>.
\<close>

theorem prune_drops_empty_mystery_counterexample:
  "map (\<lambda>m. (Disprover m, mapKeys (PossibleCards m))) (unresolvedSuggestions demoContradiction)
     = [(''P2'', [''Green'', ''Rope''])] \<and>
   fcard (prunedCardsOf demoContradiction (hd (unresolvedSuggestions demoContradiction))) = 0 \<and>
   map_option
     (\<lambda>(ch, a). (map Disprover (unresolvedSuggestions a),
                 filter (\<lambda>c. cell (knowledge a) c ''P2'' = StatusYes) (AllCards (config a))))
     (pruneAndSolveMysteries demoContradiction) = Some ([], [])"
  by code_simp

section \<open>Claim about the Surgical Strike target\<close>

lemma hd_sort_Min:
  fixes xs :: "'a::linorder list"
  assumes "xs \<noteq> []"
  shows "hd (sort xs) = Min (set xs)"
proof -
  from assms have ne: "sort xs \<noteq> []" by (metis length_0_conv length_sort)
  then obtain y ys where s: "sort xs = y # ys" by (cases "sort xs") auto
  have srt: "sorted (y # ys)" using sorted_sort[of xs] s by simp
  have st: "set xs = set (y # ys)" using set_sort[of "\<lambda>x. x" xs] s by simp
  have "Min (set (y # ys)) = y"
    using srt by (intro Min_eqI) auto
  with s st show ?thesis by simp
qed

lemma set_sortByValue: "set (sortByValue ss) = fst ` set ss"
  by (simp add: sortByValue_def)

lemma Contains_iff: "Contains d s \<longleftrightarrow> s \<in> set (elements d)"
  by (auto simp: Contains_def list_ex_iff)

lemma set_patientTargets:
  assumes "enumerates iter (frequencyKeys (unresolvedSuggestions ai))"
  shows "set (patientTargets ai iter) = fset (targetPool ai)"
proof -
  let ?keys = "frequencyKeys (unresolvedSuggestions ai)"
  let ?sorted = "sortByValue (map (\<lambda>c. (c, cardFrequency (unresolvedSuggestions ai) c)) iter)"
  from assms have k: "set iter = fset ?keys"
    by (auto simp: enumerates_def fset_of_list.rep_eq[symmetric])
  have s: "set ?sorted = fset ?keys" by (simp add: set_sortByValue image_image k)
  have f: "set (filter (\<lambda>c. \<not> Contains (recentSurgicalTargets ai) c) ?sorted) =
           fset (ffilter (\<lambda>c. \<not> Contains (recentSurgicalTargets ai) c) ?keys)"
    using s by auto
  have e: "filter (\<lambda>c. \<not> Contains (recentSurgicalTargets ai) c) ?sorted = [] \<longleftrightarrow>
           ffilter (\<lambda>c. \<not> Contains (recentSurgicalTargets ai) c) ?keys = {||}"
    using f by (metis bot_fset.rep_eq fset_inject set_empty)
  show ?thesis
    unfolding patientTargets_def targetPool_def Let_def using s f e by auto
qed

lemma targetPool_nonempty:
  "frequencyKeys (unresolvedSuggestions ai) \<noteq> {||} \<Longrightarrow> targetPool ai \<noteq> {||}"
  by (auto simp: targetPool_def Let_def)

lemma Choose_member:
  assumes "cards \<noteq> []"
  shows "\<exists>c l r'. Choose ch r cards = Some (c, l, r') \<and> c \<in> set cards"
proof (cases ch)
  case RandomChooser
  from assms have "0 < length cards" by simp
  from Intn_total[OF this, of r] obtain i r' where
    "Intn r (length cards) = Some (i, r')" "i < length cards" by blast
  with RandomChooser assms show ?thesis by simp
next
  case DeterministicChooser
  from assms have "hd (sort cards) \<in> set cards"
    by (metis hd_in_set length_0_conv length_sort set_sort list.map_ident)
  with DeterministicChooser assms show ?thesis by simp
qed

lemma Choose_deterministic:
  "cards \<noteq> [] \<Longrightarrow> Choose DeterministicChooser r cards = Some (Min (set cards), sort cards, r)"
  by (simp add: hd_sort_Min)

lemma pickUnknownCard_total: "\<exists>c ai'. pickUnknownCard ai cat = Some (c, ai')"
proof -
  let ?cl = "CardListForCategory (config ai) cat"
  let ?maybes = "filter (\<lambda>c. c |\<notin>| hand ai \<and> cell (knowledge ai) c ''solution'' = StatusMaybe) ?cl"
  let ?notMine = "filter (\<lambda>c. c |\<notin>| hand ai) ?cl"
  show ?thesis
  proof (cases "length ?maybes > 0")
    case True
    from Intn_total[OF True, of "rand ai"] obtain i r' where
      "Intn (rand ai) (length ?maybes) = Some (i, r')" by blast
    with True show ?thesis by (simp add: pickUnknownCard_def Let_def)
  next
    case False
    from Choose_total[of "chooser ai" "rand ai" ?notMine] obtain c1 l1 r1 where
      c1: "Choose (chooser ai) (rand ai) ?notMine = Some (c1, l1, r1)" by blast
    from Choose_total[of "chooser ai" "rand ai" ?cl] obtain c2 l2 r2 where
      c2: "Choose (chooser ai) (rand ai) ?cl = Some (c2, l2, r2)" by blast
    from False c1 c2 show ?thesis by (simp add: pickUnknownCard_def Let_def)
  qed
qed

lemma pickUnknownCard_recent:
  assumes "pickUnknownCard ai cat = Some (c, ai')"
  shows "recentSurgicalTargets ai' = recentSurgicalTargets ai"
proof -
  from assms consider r where "ai' = ai\<lparr>rand := r\<rparr>"
    | r l where "ai' = ai\<lparr>rand := r, config := setCardListForCategory (config ai) cat l\<rparr>"
    unfolding pickUnknownCard_def Let_def
    by (auto split: if_splits option.splits)
  then show ?thesis by cases simp_all
qed

lemma fillStep_total: "\<exists>st'. fillStep cat st = Some st'"
proof -
  obtain sg ai where st: "st = (sg, ai)" by (cases st) auto
  from pickUnknownCard_total[of ai cat] obtain c ai' where
    "pickUnknownCard ai cat = Some (c, ai')" by blast
  with st show ?thesis by (simp add: fillStep_def)
qed

lemma fillStep_keeps:
  assumes "fillStep cat (sg, ai) = Some (sg', ai')"
  shows "recentSurgicalTargets ai' = recentSurgicalTargets ai \<and> (sg k = Some v \<longrightarrow> sg' k = Some v)"
proof (cases "sg cat = None")
  case True
  with assms obtain c where p: "pickUnknownCard ai cat = Some (c, ai')" and e: "sg' = sg(cat \<mapsto> c)"
    by (auto simp: fillStep_def split: option.splits)
  from pickUnknownCard_recent[OF p] e True show ?thesis by auto
next
  case False
  with assms show ?thesis by (auto simp: fillStep_def)
qed

lemma foldOpt_fillStep_keeps:
  "foldOpt fillStep cats (sg, ai) = Some (sg', ai') \<Longrightarrow>
     recentSurgicalTargets ai' = recentSurgicalTargets ai \<and> (sg k = Some v \<longrightarrow> sg' k = Some v)"
proof (induction cats arbitrary: sg ai)
  case Nil
  then show ?case by simp
next
  case (Cons cat cats)
  then obtain s1 a1 where s: "fillStep cat (sg, ai) = Some (s1, a1)"
    and f: "foldOpt fillStep cats (s1, a1) = Some (sg', ai')"
    by (auto split: option.splits)
  from fillStep_keeps[OF s, of k v] Cons.IH[OF f] show ?case by auto
qed

lemma foldOpt_fillStep_total: "\<exists>st'. foldOpt fillStep cats st = Some st'"
proof (induction cats arbitrary: st)
  case Nil
  then show ?case by simp
next
  case (Cons cat cats)
  from fillStep_total[of cat st] obtain s1 where "fillStep cat st = Some s1" by blast
  with Cons[of s1] show ?case by simp
qed

lemma fillFromHand_keeps: "sg k = Some v \<Longrightarrow> fillFromHand cfg cs sg k = Some v"
proof (induction cfg cs sg rule: fillFromHand.induct)
  case (1 cfg suggestion)
  then show ?case by simp
next
  case (2 cfg c cs suggestion)
  show ?case
  proof (cases "mapLen suggestion = 3")
    case True
    with "2.prems" show ?thesis by simp
  next
    case full: False
    show ?thesis
    proof (cases "suggestion (categoryOf cfg c) = None")
      case True
      with "2.prems" have "k \<noteq> categoryOf cfg c" by auto
      with "2.prems" have "(suggestion(categoryOf cfg c \<mapsto> c)) k = Some v" by simp
      from "2.IH"(1)[OF full True this]
      have h: "fillFromHand cfg cs (suggestion(categoryOf cfg c \<mapsto> c)) k = Some v" .
      have "fillFromHand cfg (c # cs) suggestion =
          fillFromHand cfg cs (suggestion(categoryOf cfg c \<mapsto> c))"
        using full True by simp
      with h show ?thesis by simp
    next
      case False
      from "2.IH"(2)[OF full False "2.prems"]
      have h: "fillFromHand cfg cs suggestion k = Some v" .
      have "fillFromHand cfg (c # cs) suggestion = fillFromHand cfg cs suggestion"
        using full False by auto
      with h show ?thesis by simp
    qed
  qed
qed

lemma buildSuggestionAroundTarget_target:
  "\<exists>sg ai'. buildSuggestionAroundTarget ai t = Some (sg, ai') \<and>
      sg (categoryOf (config ai) t) = Some t \<and>
      recentSurgicalTargets ai' = recentSurgicalTargets ai"
proof -
  obtain hs r where sh: "Shuffle (rand ai) (Hand ai) = (hs, r)"
    by (cases "Shuffle (rand ai) (Hand ai)") auto
  let ?sg0 = "fillFromHand (config ai) hs [categoryOf (config ai) t \<mapsto> t]"
  have k0: "?sg0 (categoryOf (config ai) t) = Some t" by (rule fillFromHand_keeps) simp
  show ?thesis
  proof (cases "mapLen ?sg0 < 3")
    case False
    with sh have "buildSuggestionAroundTarget ai t = Some (?sg0, ai\<lparr>rand := r\<rparr>)"
      by (simp add: buildSuggestionAroundTarget_def Let_def)
    with k0 show ?thesis by simp
  next
    case True
    from foldOpt_fillStep_total[of "[CategorySuspect, CategoryWeapon, CategoryRoom]" "(?sg0, ai\<lparr>rand := r\<rparr>)"]
    obtain sg ai' where f: "foldOpt fillStep [CategorySuspect, CategoryWeapon, CategoryRoom]
        (?sg0, ai\<lparr>rand := r\<rparr>) = Some (sg, ai')" by (metis surj_pair)
    from foldOpt_fillStep_keeps[OF f, of "categoryOf (config ai) t" t] k0
    have "sg (categoryOf (config ai) t) = Some t" "recentSurgicalTargets ai' = recentSurgicalTargets ai"
      by simp_all
    moreover from True sh f have "buildSuggestionAroundTarget ai t = Some (sg, ai')"
      by (simp add: buildSuggestionAroundTarget_def Let_def)
    ultimately show ?thesis by blast
  qed
qed

lemma frequencyKeys_Nil: "frequencyKeys [] = {||}"
  by (simp add: frequencyKeys_def)

lemma SurgicalStrike_uses_target:
  assumes "surgicalTarget ai iter = Some (t, a1)" "frequencyKeys (unresolvedSuggestions ai) \<noteq> {||}"
  shows "\<exists>sg ai2. SurgicalStrike_BuildSuggestion ai iter = Some (Some sg, ai2) \<and>
           sg (categoryOf (config ai) t) = Some t \<and>
           recentSurgicalTargets ai2 = Push (recentSurgicalTargets ai) t"
proof -
  from assms(2) have ne: "length (unresolvedSuggestions ai) \<noteq> 0"
    using frequencyKeys_Nil by auto
  from assms(2) have pos: "fcard (frequencyKeys (unresolvedSuggestions ai)) > 0"
    by (metis fcard_0_eq gr0I)
  from assms(1) obtain r where a1: "a1 = ai\<lparr>rand := r\<rparr>"
    by (auto simp: surgicalTarget_def split: option.splits)
  let ?a = "a1\<lparr>recentSurgicalTargets := Push (recentSurgicalTargets a1) t\<rparr>"
  from buildSuggestionAroundTarget_target[of ?a t] obtain sg ai2 where
    b: "buildSuggestionAroundTarget ?a t = Some (sg, ai2)"
    "sg (categoryOf (config ?a) t) = Some t"
    "recentSurgicalTargets ai2 = recentSurgicalTargets ?a" by blast
  from ne pos assms(1) b(1) have "SurgicalStrike_BuildSuggestion ai iter = Some (Some sg, ai2)"
    by (simp add: SurgicalStrike_BuildSuggestion_def)
  with b(2,3) a1 show ?thesis by simp
qed

text \<open>
  Claim C8, as the code has it. When some tracked mystery lists a candidate, then for every
  order in which the frequency table may be enumerated the strategy has a target; the
  target is a card of the pool (the candidates that are not recent targets, or all
  candidates when each of them is recent); under the deterministic chooser it is the
  alphabetically first card of the pool, whatever the frequencies and the enumeration, and
  the agent is unchanged by the choice. The strategy returns a suggestion that holds the
  target in the target's category and pushes the target on the recent targets.
\<close>

theorem surgical_target_is_chooser_pick:
  assumes "enumerates iter (frequencyKeys (unresolvedSuggestions ai))"
    "frequencyKeys (unresolvedSuggestions ai) \<noteq> {||}"
  shows "\<exists>t ai1 sg ai2. surgicalTarget ai iter = Some (t, ai1) \<and> t |\<in>| targetPool ai \<and>
           (chooser ai = DeterministicChooser \<longrightarrow> t = Min (fset (targetPool ai)) \<and> ai1 = ai) \<and>
           SurgicalStrike_BuildSuggestion ai iter = Some (Some sg, ai2) \<and>
           sg (categoryOf (config ai) t) = Some t \<and>
           recentSurgicalTargets ai2 = Push (recentSurgicalTargets ai) t"
proof -
  have st: "set (patientTargets ai iter) = fset (targetPool ai)"
    using assms(1) by (rule set_patientTargets)
  from targetPool_nonempty[OF assms(2)] st have ne: "patientTargets ai iter \<noteq> []"
    by (metis bot_fset.rep_eq fset_inject set_empty)
  have "\<exists>t ai1. surgicalTarget ai iter = Some (t, ai1) \<and> t |\<in>| targetPool ai \<and>
           (chooser ai = DeterministicChooser \<longrightarrow> t = Min (fset (targetPool ai)) \<and> ai1 = ai)"
  proof (cases "chooser ai = DeterministicChooser")
    case True
    with Choose_deterministic[OF ne, of "rand ai"] st
    have "surgicalTarget ai iter = Some (Min (fset (targetPool ai)), ai)"
      by (simp add: surgicalTarget_def)
    moreover have "Min (fset (targetPool ai)) |\<in>| targetPool ai"
      using targetPool_nonempty[OF assms(2)]
      by (metis Min_in bot_fset.rep_eq finite_fset fset_inject)
    ultimately show ?thesis by blast
  next
    case False
    from Choose_member[OF ne, of "chooser ai" "rand ai"] obtain c l r' where
      "Choose (chooser ai) (rand ai) (patientTargets ai iter) = Some (c, l, r')"
      "c \<in> set (patientTargets ai iter)" by blast
    with st False show ?thesis by (auto simp: surgicalTarget_def)
  qed
  then obtain t ai1 where t: "surgicalTarget ai iter = Some (t, ai1)" "t |\<in>| targetPool ai"
    "chooser ai = DeterministicChooser \<longrightarrow> t = Min (fset (targetPool ai)) \<and> ai1 = ai"
    by blast
  from SurgicalStrike_uses_target[OF t(1) assms(2)] t show ?thesis by blast
qed

lemma demoMysteries_target:
  "enumerates [''Green'', ''Hall'', ''Plum'', ''Rope''] (frequencyKeys (unresolvedSuggestions demoMysteries)) \<and>
   chooser demoMysteries = DeterministicChooser \<and>
   targetPool demoMysteries = {|''Green'', ''Hall'', ''Plum'', ''Rope''|}"
  by code_simp

theorem surgical_target_is_chooser_pick_witness:
  "\<exists>sg ai2. surgicalTarget demoMysteries [''Green'', ''Hall'', ''Plum'', ''Rope'']
       = Some (''Green'', demoMysteries) \<and>
     SurgicalStrike_BuildSuggestion demoMysteries [''Green'', ''Hall'', ''Plum'', ''Rope'']
       = Some (Some sg, ai2) \<and>
     sg CategorySuspect = Some ''Green'' \<and> elements (recentSurgicalTargets ai2) = [''Green'']"
proof -
  have ne: "frequencyKeys (unresolvedSuggestions demoMysteries) \<noteq> {||}"
    using demoMysteries_target by (auto simp: enumerates_def)
  have m: "Min (fset (targetPool demoMysteries)) = ''Green''"
    using demoMysteries_target by simp
  have c: "categoryOf (config demoMysteries) ''Green'' = CategorySuspect" by code_simp
  have p: "elements (Push (recentSurgicalTargets demoMysteries) ''Green'') = [''Green'']"
    by code_simp
  from surgical_target_is_chooser_pick[OF _ ne, of "[''Green'', ''Hall'', ''Plum'', ''Rope'']"]
    demoMysteries_target m
  obtain sg ai2 where
    "surgicalTarget demoMysteries [''Green'', ''Hall'', ''Plum'', ''Rope''] = Some (''Green'', demoMysteries)"
    "SurgicalStrike_BuildSuggestion demoMysteries [''Green'', ''Hall'', ''Plum'', ''Rope''] = Some (Some sg, ai2)"
    "sg (categoryOf (config demoMysteries) ''Green'') = Some ''Green''"
    "recentSurgicalTargets ai2 = Push (recentSurgicalTargets demoMysteries) ''Green''"
    by auto
  with c p show ?thesis by auto
qed

text \<open>
  Claim C8 as stated fails: with the mysteries "P2 holds one of Green, Rope, Hall" and
  "P3 holds one of Plum, Rope, Hall", no recent target and the deterministic chooser, the
  target is \<open>Green\<close>, listed by one mystery, although \<open>Rope\<close>, listed by two, is not
  a recent target.
\<close>

theorem surgical_target_not_most_frequent_counterexample:
  "chooser demoMysteries = DeterministicChooser \<and>
   enumerates [''Green'', ''Hall'', ''Plum'', ''Rope'']
     (frequencyKeys (unresolvedSuggestions demoMysteries)) \<and>
   map_option fst (surgicalTarget demoMysteries [''Green'', ''Hall'', ''Plum'', ''Rope''])
     = Some ''Green'' \<and>
   cardFrequency (unresolvedSuggestions demoMysteries) ''Green'' = 1 \<and>
   cardFrequency (unresolvedSuggestions demoMysteries) ''Rope'' = 2 \<and>
   Contains (recentSurgicalTargets demoMysteries) ''Rope'' = False"
  by code_simp

section \<open>Claim about the sources of non-determinism\<close>

lemma mark_indep:
  "markCardLocation (a\<lparr>rand := r, chooser := k\<rparr>) c l =
     map_option (\<lambda>(b, a'). (b, a'\<lparr>rand := r, chooser := k\<rparr>)) (markCardLocation a c l)"
  by (auto simp: markCardLocation_def allLocations_def split: option.splits)

lemma foldOpt_lift:
  assumes step: "\<And>x s. f x (T s) = map_option T (f x s)"
  shows "foldOpt f xs (T s) = map_option T (foldOpt f xs s)"
proof (induction xs arbitrary: s)
  case Nil
  then show ?case by simp
next
  case (Cons x xs)
  show ?case
  proof (cases "f x s")
    case None
    then show ?thesis by (simp add: step)
  next
    case (Some s1)
    with Cons[of s1] show ?thesis by (simp add: step)
  qed
qed

lemma prunedCardsOf_indep [simp]: "prunedCardsOf (a\<lparr>rand := r, chooser := k\<rparr>) m = prunedCardsOf a m"
  by (simp add: prunedCardsOf_def)

lemma pruneStep_indep:
  "pruneStep m (case st of (ch, rem, a) \<Rightarrow> (ch, rem, a\<lparr>rand := r, chooser := k\<rparr>)) =
     map_option (\<lambda>(ch, rem, a). (ch, rem, a\<lparr>rand := r, chooser := k\<rparr>)) (pruneStep m st)"
proof -
  obtain ch rem a where st: "st = (ch, rem, a)" by (cases st) auto
  show ?thesis
    unfolding st
    by (cases "markCardLocation a (hd (mapKeys (prunedCardsOf a m))) (Disprover m)")
       (auto simp: pruneStep_unfold mark_indep)
qed

lemma prune_indep:
  "pruneAndSolveMysteries (a\<lparr>rand := r, chooser := k\<rparr>) =
     map_option (\<lambda>(ch, a'). (ch, a'\<lparr>rand := r, chooser := k\<rparr>)) (pruneAndSolveMysteries a)"
proof -
  have "foldOpt pruneStep (unresolvedSuggestions a) (False, [], a\<lparr>rand := r, chooser := k\<rparr>) =
      map_option (\<lambda>(ch, rem, a). (ch, rem, a\<lparr>rand := r, chooser := k\<rparr>))
        (foldOpt pruneStep (unresolvedSuggestions a) (False, [], a))"
    using foldOpt_lift[where f = pruneStep and T = "\<lambda>(ch, rem, a). (ch, rem, a\<lparr>rand := r, chooser := k\<rparr>)"
        and s = "(False, [], a)", OF pruneStep_indep]
    by simp
  then show ?thesis
    by (cases "foldOpt pruneStep (unresolvedSuggestions a) (False, [], a)")
       (auto simp: pruneAndSolveMysteries_def)
qed

lemma solutionStep_indep:
  "solutionStep cat (case st of (ch, a) \<Rightarrow> (ch, a\<lparr>rand := r, chooser := k\<rparr>)) =
     map_option (\<lambda>(ch, a). (ch, a\<lparr>rand := r, chooser := k\<rparr>)) (solutionStep cat st)"
proof -
  obtain ch a where st: "st = (ch, a)" by (cases st) auto
  let ?maybes = "filter (\<lambda>c. cell (knowledge a) c ''solution'' = StatusMaybe)
      (CardListForCategory (config a) cat)"
  show ?thesis
    unfolding st
    by (cases "markCardLocation a (hd ?maybes) ''solution''")
       (auto simp: solutionStep_def Let_def mark_indep)
qed

lemma deduceSolution_indep:
  "deduceSolutionByElimination (a\<lparr>rand := r, chooser := k\<rparr>) =
     map_option (\<lambda>(ch, a'). (ch, a'\<lparr>rand := r, chooser := k\<rparr>)) (deduceSolutionByElimination a)"
  using foldOpt_lift[where f = solutionStep and T = "\<lambda>(ch, a). (ch, a\<lparr>rand := r, chooser := k\<rparr>)"
      and s = "(False, a)", OF solutionStep_indep]
  by (simp add: deduceSolutionByElimination_def)

lemma locationStep_indep:
  "locationStep c (case st of (ch, a) \<Rightarrow> (ch, a\<lparr>rand := r, chooser := k\<rparr>)) =
     map_option (\<lambda>(ch, a). (ch, a\<lparr>rand := r, chooser := k\<rparr>)) (locationStep c st)"
proof -
  obtain ch a where st: "st = (ch, a)" by (cases st) auto
  obtain isKnown maybes where sc: "scanLocations (knowledge a) c (allLocations a) [] = (isKnown, maybes)"
    by (cases "scanLocations (knowledge a) c (allLocations a) []") auto
  have al: "allLocations (a\<lparr>rand := r, chooser := k\<rparr>) = allLocations a" by (simp add: allLocations_def)
  show ?thesis
    unfolding st
    by (cases "markCardLocation a c (hd maybes)")
       (auto simp: locationStep_def mark_indep sc al)
qed

lemma deduceLocations_indep:
  "deduceCardLocationsByElimination (a\<lparr>rand := r, chooser := k\<rparr>) =
     map_option (\<lambda>(ch, a'). (ch, a'\<lparr>rand := r, chooser := k\<rparr>)) (deduceCardLocationsByElimination a)"
  using foldOpt_lift[where f = locationStep and T = "\<lambda>(ch, a). (ch, a\<lparr>rand := r, chooser := k\<rparr>)"
      and s = "(False, a)", OF locationStep_indep]
  by (simp add: deduceCardLocationsByElimination_def)

lemma deductionPass_indep:
  "deductionPass (a\<lparr>rand := r, chooser := k\<rparr>) =
     map_option (\<lambda>(ch, a'). (ch, a'\<lparr>rand := r, chooser := k\<rparr>)) (deductionPass a)"
  by (auto simp: deductionPass_def prune_indep deduceSolution_indep deduceLocations_indep
        split: option.splits)

lemma deductionLoopFrom_indep:
  "deductionLoopFrom i (a\<lparr>rand := r, chooser := k\<rparr>) =
     map_option (\<lambda>(n, conv, a'). (n, conv, a'\<lparr>rand := r, chooser := k\<rparr>)) (deductionLoopFrom i a)"
proof (induction i a rule: deductionLoopFrom.induct)
  case (1 i a)
  show ?case
  proof (cases "i < 10")
    case False
    then show ?thesis
      by (simp add: deductionLoopFrom.simps[of i a] deductionLoopFrom.simps[of i "a\<lparr>rand := r, chooser := k\<rparr>"])
  next
    case True
    show ?thesis
    proof (cases "deductionPass a")
      case None
      with True show ?thesis
        by (simp add: deductionLoopFrom.simps[of i a] deductionLoopFrom.simps[of i "a\<lparr>rand := r, chooser := k\<rparr>"]
              deductionPass_indep)
    next
      case (Some p)
      obtain ch a1 where p: "p = (ch, a1)" by (cases p) auto
      show ?thesis
      proof (cases ch)
        case False
        with True Some p show ?thesis
          by (simp add: deductionLoopFrom.simps[of i a] deductionLoopFrom.simps[of i "a\<lparr>rand := r, chooser := k\<rparr>"]
                deductionPass_indep)
      next
        case ch: True
        from "1.IH"[OF True Some[unfolded p] refl] ch
        have "deductionLoopFrom (Suc i) (a1\<lparr>rand := r, chooser := k\<rparr>) =
          map_option (\<lambda>(n, conv, a'). (n, conv, a'\<lparr>rand := r, chooser := k\<rparr>)) (deductionLoopFrom (Suc i) a1)"
          by simp
        with True Some p ch show ?thesis
          by (simp add: deductionLoopFrom.simps[of i a] deductionLoopFrom.simps[of i "a\<lparr>rand := r, chooser := k\<rparr>"]
                deductionPass_indep)
      qed
    qed
  qed
qed

lemma runDeductionLoop_indep:
  "runDeductionLoop (a\<lparr>rand := r, chooser := k\<rparr>) = map_option (\<lambda>a'. a'\<lparr>rand := r, chooser := k\<rparr>) (runDeductionLoop a)"
  by (cases "deductionLoopFrom 0 a") (auto simp: runDeductionLoop_def deductionLoopFrom_indep)

lemma directReveal_indep:
  "directReveal (a\<lparr>rand := r, chooser := k\<rparr>) e = map_option (\<lambda>a'. a'\<lparr>rand := r, chooser := k\<rparr>) (directReveal a e)"
  by (cases "markCardLocation a (RevealedCard e) (DisproverName e)")
     (auto simp: directReveal_def mark_indep)

lemma markUnlessHeld_indep:
  "markUnlessHeld c (a\<lparr>rand := r, chooser := k\<rparr>) = map_option (\<lambda>a'. a'\<lparr>rand := r, chooser := k\<rparr>) (markUnlessHeld c a)"
  by (cases "markCardLocation a c ''solution''") (auto simp: mark_indep markUnlessHeld_def)

lemma turnUpdates_indep:
  "turnUpdates (a\<lparr>rand := r, chooser := k\<rparr>) e = map_option (\<lambda>a'. a'\<lparr>rand := r, chooser := k\<rparr>) (turnUpdates a e)"
proof -
  let ?f = markUnlessHeld
  have fold: "foldOpt ?f cs (a\<lparr>rand := r, chooser := k\<rparr>) = map_option (\<lambda>a'. a'\<lparr>rand := r, chooser := k\<rparr>) (foldOpt ?f cs a)" for cs
    using foldOpt_lift[where f = ?f and T = "\<lambda>a'. a'\<lparr>rand := r, chooser := k\<rparr>" and s = a] markUnlessHeld_indep
    by blast
  show ?thesis
  proof (cases "name a = SuggesterName e")
    case mine: True
    show ?thesis
    proof (cases "DisproverName e \<noteq> '''' \<and> RevealedCard e \<noteq> ''''")
      case True
      with mine show ?thesis
        by (cases "markCardLocation a (RevealedCard e) (DisproverName e)")
           (auto simp: turnUpdates_def mark_indep)
    next
      case shown: False
      show ?thesis
      proof (cases "DisproverName e = ''''")
        case True
        with mine shown fold[of "suggestionCards (Suggestion e)"] show ?thesis
          by (simp add: turnUpdates_def)
      next
        case False
        with mine shown show ?thesis by (simp add: turnUpdates_def)
      qed
    qed
  next
    case False
    then show ?thesis by (simp add: turnUpdates_def)
  qed
qed

lemma processTurnEvent_indep:
  "processTurnEvent (a\<lparr>rand := r, chooser := k\<rparr>) e = map_option (\<lambda>a'. a'\<lparr>rand := r, chooser := k\<rparr>) (processTurnEvent a e)"
proof (cases "SuggesterName e = ''Game Event''")
  case True
  then show ?thesis by (simp add: processTurnEvent_def directReveal_indep)
next
  case False
  then show ?thesis
    by (cases "turnUpdates a e")
       (simp_all add: processTurnEvent_def turnUpdates_indep runDeductionLoop_indep)
qed

lemma HandleEvent_indep:
  "HandleEvent (a\<lparr>rand := r, chooser := k\<rparr>) e = map_option (\<lambda>a'. a'\<lparr>rand := r, chooser := k\<rparr>) (HandleEvent a e)"
  by (cases e) (simp_all add: processTurnEvent_indep)

lemma receiveStep_indep:
  "map_option snd (markCardLocation (a\<lparr>rand := r, chooser := k, hand := finsert c (hand a)\<rparr>) c (name a)) =
   map_option (\<lambda>a'. a'\<lparr>rand := r, chooser := k\<rparr>)
     (map_option snd (markCardLocation (a\<lparr>hand := finsert c (hand a)\<rparr>) c (name a)))"
proof -
  let ?b = "a\<lparr>hand := finsert c (hand a)\<rparr>"
  have e: "a\<lparr>rand := r, chooser := k, hand := finsert c (hand a)\<rparr> = ?b\<lparr>rand := r, chooser := k\<rparr>" by simp
  have "markCardLocation (?b\<lparr>rand := r, chooser := k\<rparr>) c (name a) =
      map_option (\<lambda>(b, a'). (b, a'\<lparr>rand := r, chooser := k\<rparr>)) (markCardLocation ?b c (name a))"
    by (rule mark_indep)
  then show ?thesis
    unfolding e by (cases "markCardLocation ?b c (name a)") auto
qed

lemma ReceiveHand_indep:
  "ReceiveHand (a\<lparr>rand := r, chooser := k\<rparr>) cards = map_option (\<lambda>a'. a'\<lparr>rand := r, chooser := k\<rparr>) (ReceiveHand a cards)"
proof -
  let ?f = "\<lambda>c a. map_option snd (markCardLocation (a\<lparr>hand := finsert c (hand a)\<rparr>) c (name a))"
  have step: "?f c (b\<lparr>rand := r, chooser := k\<rparr>) = map_option (\<lambda>a'. a'\<lparr>rand := r, chooser := k\<rparr>) (?f c b)" for c b
    using receiveStep_indep[where a = b and r = r and c = c] by simp
  have fold: "foldOpt ?f cards (a\<lparr>rand := r, chooser := k\<rparr>) = map_option (\<lambda>a'. a'\<lparr>rand := r, chooser := k\<rparr>) (foldOpt ?f cards a)"
    using foldOpt_lift[where f = ?f and T = "\<lambda>a'. a'\<lparr>rand := r, chooser := k\<rparr>" and s = a] step by blast
  show ?thesis
    by (cases "foldOpt ?f cards a") (simp_all add: ReceiveHand_def fold runDeductionLoop_indep)
qed

lemma ShouldAccuse_indep: "ShouldAccuse (a\<lparr>rand := r, chooser := k\<rparr>) = ShouldAccuse a"
  by (simp add: ShouldAccuse_unfold knownSolutionCard_def)

lemma targetPool_rand [simp]: "targetPool (a\<lparr>rand := r\<rparr>) = targetPool a"
  by (simp add: targetPool_def)

lemma surgicalTarget_deterministic:
  assumes "chooser ai = DeterministicChooser"
    "enumerates iter (frequencyKeys (unresolvedSuggestions ai))"
    "frequencyKeys (unresolvedSuggestions ai) \<noteq> {||}"
  shows "surgicalTarget ai iter = Some (Min (fset (targetPool ai)), ai)"
proof -
  have st: "set (patientTargets ai iter) = fset (targetPool ai)"
    using assms(2) by (rule set_patientTargets)
  from targetPool_nonempty[OF assms(3)] st have ne: "patientTargets ai iter \<noteq> []"
    by (metis bot_fset.rep_eq fset_inject set_empty)
  from Choose_deterministic[OF ne, of "rand ai"] st assms(1) show ?thesis
    by (simp add: surgicalTarget_def)
qed

lemma pickUnknownCard_deterministic:
  assumes "chooser ai = DeterministicChooser"
    "\<not> list_ex (\<lambda>c. c |\<notin>| hand ai \<and> cell (knowledge ai) c ''solution'' = StatusMaybe)
          (CardListForCategory (config ai) cat)"
  shows "pickUnknownCard (ai\<lparr>rand := r\<rparr>) cat =
           map_option (\<lambda>(c, a). (c, a\<lparr>rand := r\<rparr>)) (pickUnknownCard ai cat)"
proof -
  from assms(2) have m: "filter (\<lambda>c. c |\<notin>| hand ai \<and> cell (knowledge ai) c ''solution'' = StatusMaybe)
          (CardListForCategory (config ai) cat) = []"
    by (auto simp: list_ex_iff filter_empty_conv)
  show ?thesis
    using assms(1) by (simp add: pickUnknownCard_def Let_def m)
qed

subsection \<open>The order in which a suggestion is enumerated does not matter\<close>

lemma mark_commute:
  assumes "c1 \<noteq> c2"
  shows "Option.bind (map_option snd (markCardLocation a c1 l)) (\<lambda>a1. map_option snd (markCardLocation a1 c2 l)) =
         Option.bind (map_option snd (markCardLocation a c2 l)) (\<lambda>a2. map_option snd (markCardLocation a2 c1 l))"
  using assms
  by (auto simp: markCardLocation_def cell_def allLocations_def fun_upd_twist
        split: option.splits if_splits)

lemma markUnlessHeld_hand: "markUnlessHeld c a = Some a' \<Longrightarrow> hand a' = hand a"
  by (auto simp: markUnlessHeld_def mark_fields split: if_splits)

lemma markUnlessHeld_commute:
  "Option.bind (markUnlessHeld c1 a) (markUnlessHeld c2) =
   Option.bind (markUnlessHeld c2 a) (markUnlessHeld c1)"
proof (cases "c1 = c2")
  case True
  then show ?thesis by simp
next
  case ne: False
  have h: "hand a1 = hand a" if "markCardLocation a c l = Some (b, a1)" for c l b a1
    using that by (simp add: mark_fields)
  show ?thesis
  proof (cases "c1 |\<in>| hand a")
    case in1: True
    show ?thesis
    proof (cases "markUnlessHeld c2 a")
      case None
      with in1 show ?thesis by (simp add: markUnlessHeld_def)
    next
      case (Some a2)
      from markUnlessHeld_hand[OF Some] in1 have "markUnlessHeld c1 a2 = Some a2"
        by (simp add: markUnlessHeld_def)
      with Some in1 show ?thesis by (simp add: markUnlessHeld_def)
    qed
  next
    case out1: False
    show ?thesis
    proof (cases "c2 |\<in>| hand a")
      case in2: True
      show ?thesis
      proof (cases "markUnlessHeld c1 a")
        case None
        with in2 show ?thesis by (simp add: markUnlessHeld_def)
      next
        case (Some a1)
        from markUnlessHeld_hand[OF Some] in2 have "markUnlessHeld c2 a1 = Some a1"
          by (simp add: markUnlessHeld_def)
        with Some in2 show ?thesis by (simp add: markUnlessHeld_def)
      qed
    next
      case out2: False
      have 1: "Option.bind (markUnlessHeld c1 a) (markUnlessHeld c2) =
          Option.bind (map_option snd (markCardLocation a c1 ''solution''))
            (\<lambda>a1. map_option snd (markCardLocation a1 c2 ''solution''))"
        using out1 out2 h
        by (cases "markCardLocation a c1 ''solution''") (auto simp: markUnlessHeld_def)
      have 2: "Option.bind (markUnlessHeld c2 a) (markUnlessHeld c1) =
          Option.bind (map_option snd (markCardLocation a c2 ''solution''))
            (\<lambda>a1. map_option snd (markCardLocation a1 c1 ''solution''))"
        using out1 out2 h
        by (cases "markCardLocation a c2 ''solution''") (auto simp: markUnlessHeld_def)
      show ?thesis unfolding 1 2 using ne by (rule mark_commute)
    qed
  qed
qed

lemma foldOpt_Cons_bind: "foldOpt f (x # xs) s = Option.bind (f x s) (foldOpt f xs)"
  by (cases "f x s") simp_all

lemma foldOpt_front:
  "foldOpt markUnlessHeld (ys @ x # zs) a = foldOpt markUnlessHeld (x # ys @ zs) a"
proof (induction ys arbitrary: a)
  case Nil
  then show ?case by simp
next
  case (Cons y ys)
  have "foldOpt markUnlessHeld ((y # ys) @ x # zs) a =
      Option.bind (markUnlessHeld y a) (foldOpt markUnlessHeld (ys @ x # zs))"
    unfolding append_Cons by (rule foldOpt_Cons_bind)
  also have "\<dots> = Option.bind (markUnlessHeld y a) (foldOpt markUnlessHeld (x # ys @ zs))"
    using Cons.IH by (cases "markUnlessHeld y a") simp_all
  also have "\<dots> = Option.bind (Option.bind (markUnlessHeld y a) (markUnlessHeld x))
      (foldOpt markUnlessHeld (ys @ zs))"
    by (cases "markUnlessHeld y a") (simp_all add: foldOpt_Cons_bind del: foldOpt.simps(2))
  also have "\<dots> = Option.bind (Option.bind (markUnlessHeld x a) (markUnlessHeld y))
      (foldOpt markUnlessHeld (ys @ zs))"
    by (simp add: markUnlessHeld_commute)
  also have "\<dots> = foldOpt markUnlessHeld (x # (y # ys) @ zs) a"
    by (cases "markUnlessHeld x a") (simp_all add: foldOpt_Cons_bind del: foldOpt.simps(2))
  finally show ?case .
qed

lemma foldOpt_markUnlessHeld_perm:
  "mset cs' = mset cs \<Longrightarrow> foldOpt markUnlessHeld cs' a = foldOpt markUnlessHeld cs a"
proof (induction cs' arbitrary: cs a)
  case Nil
  then show ?case by simp
next
  case (Cons x xs)
  then have "x \<in> set cs" by (metis list.set_intros(1) set_mset_mset)
  then obtain ys zs where cs: "cs = ys @ x # zs" by (meson split_list)
  with Cons.prems have m: "mset xs = mset (ys @ zs)" by simp
  have "foldOpt markUnlessHeld (x # xs) a = Option.bind (markUnlessHeld x a) (foldOpt markUnlessHeld xs)"
    by (rule foldOpt_Cons_bind)
  also have "\<dots> = Option.bind (markUnlessHeld x a) (foldOpt markUnlessHeld (ys @ zs))"
    using Cons.IH[OF m] by (cases "markUnlessHeld x a") simp_all
  also have "\<dots> = foldOpt markUnlessHeld (x # ys @ zs) a"
    by (rule foldOpt_Cons_bind[symmetric])
  also have "\<dots> = foldOpt markUnlessHeld cs a" unfolding cs by (rule foldOpt_front[symmetric])
  finally show ?case .
qed

lemma SurgicalStrike_enumeration:
  assumes "chooser ai = DeterministicChooser"
    "enumerates iter1 (frequencyKeys (unresolvedSuggestions ai))"
    "enumerates iter2 (frequencyKeys (unresolvedSuggestions ai))"
  shows "SurgicalStrike_BuildSuggestion ai iter1 = SurgicalStrike_BuildSuggestion ai iter2"
proof (cases "frequencyKeys (unresolvedSuggestions ai) = {||}")
  case True
  then show ?thesis by (simp add: SurgicalStrike_BuildSuggestion_def fcard_fempty)
next
  case False
  from surgicalTarget_deterministic[OF assms(1,2) False]
    surgicalTarget_deterministic[OF assms(1,3) False]
  have "surgicalTarget ai iter1 = surgicalTarget ai iter2" by simp
  with False show ?thesis by (simp add: SurgicalStrike_BuildSuggestion_def)
qed

text \<open>
  Claim C9, as the code has it. Inference uses neither the random source nor the chooser:
  handling an event, taking in a hand, running the deduction loop and deciding on an
  accusation give the same result for any two random sources and any two choosers (both
  are handed through unchanged), and the marks made when nobody disproved the agent's own
  suggestion give the same result in whatever order the suggested cards are enumerated.
  With the deterministic chooser the target of the Surgical Strike is the same for any
  two random sources and any two enumerations of the frequency table, and so is the card
  of the unknown-card picker once no card of the category outside the hand is Maybe at
  the solution. With the deterministic chooser and one random source the suggestion of
  the Surgical Strike is the same for any two enumerations of the frequency table.
\<close>

theorem inference_independent_of_chooser_and_random_source:
  "HandleEvent (ai\<lparr>rand := r, chooser := ch\<rparr>) e =
     map_option (\<lambda>a. a\<lparr>rand := r, chooser := ch\<rparr>) (HandleEvent ai e) \<and>
   ReceiveHand (ai\<lparr>rand := r, chooser := ch\<rparr>) cards =
     map_option (\<lambda>a. a\<lparr>rand := r, chooser := ch\<rparr>) (ReceiveHand ai cards) \<and>
   runDeductionLoop (ai\<lparr>rand := r, chooser := ch\<rparr>) =
     map_option (\<lambda>a. a\<lparr>rand := r, chooser := ch\<rparr>) (runDeductionLoop ai) \<and>
   ShouldAccuse (ai\<lparr>rand := r, chooser := ch\<rparr>) = ShouldAccuse ai \<and>
   (mset cs' = mset cs \<longrightarrow> foldOpt markUnlessHeld cs' ai = foldOpt markUnlessHeld cs ai) \<and>
   (chooser ai = DeterministicChooser \<and>
    enumerates iter1 (frequencyKeys (unresolvedSuggestions ai)) \<and>
    enumerates iter2 (frequencyKeys (unresolvedSuggestions ai)) \<and>
    frequencyKeys (unresolvedSuggestions ai) \<noteq> {||} \<longrightarrow>
      surgicalTarget (ai\<lparr>rand := r\<rparr>) iter1 =
        map_option (\<lambda>(t, a). (t, a\<lparr>rand := r\<rparr>)) (surgicalTarget ai iter2)) \<and>
   (chooser ai = DeterministicChooser \<and>
    \<not> list_ex (\<lambda>c. c |\<notin>| hand ai \<and> cell (knowledge ai) c ''solution'' = StatusMaybe)
          (CardListForCategory (config ai) cat) \<longrightarrow>
      pickUnknownCard (ai\<lparr>rand := r\<rparr>) cat =
        map_option (\<lambda>(c, a). (c, a\<lparr>rand := r\<rparr>)) (pickUnknownCard ai cat)) \<and>
   (chooser ai = DeterministicChooser \<and>
    enumerates iter1 (frequencyKeys (unresolvedSuggestions ai)) \<and>
    enumerates iter2 (frequencyKeys (unresolvedSuggestions ai)) \<longrightarrow>
      SurgicalStrike_BuildSuggestion ai iter1 = SurgicalStrike_BuildSuggestion ai iter2)"
proof (intro conjI impI)
  show "HandleEvent (ai\<lparr>rand := r, chooser := ch\<rparr>) e =
      map_option (\<lambda>a. a\<lparr>rand := r, chooser := ch\<rparr>) (HandleEvent ai e)"
    by (rule HandleEvent_indep)
  show "ReceiveHand (ai\<lparr>rand := r, chooser := ch\<rparr>) cards =
      map_option (\<lambda>a. a\<lparr>rand := r, chooser := ch\<rparr>) (ReceiveHand ai cards)"
    by (rule ReceiveHand_indep)
  show "runDeductionLoop (ai\<lparr>rand := r, chooser := ch\<rparr>) =
      map_option (\<lambda>a. a\<lparr>rand := r, chooser := ch\<rparr>) (runDeductionLoop ai)"
    by (rule runDeductionLoop_indep)
  show "ShouldAccuse (ai\<lparr>rand := r, chooser := ch\<rparr>) = ShouldAccuse ai"
    by (rule ShouldAccuse_indep)
next
  assume "mset cs' = mset cs"
  then show "foldOpt markUnlessHeld cs' ai = foldOpt markUnlessHeld cs ai"
    by (rule foldOpt_markUnlessHeld_perm)
next
  assume a: "chooser ai = DeterministicChooser \<and>
    enumerates iter1 (frequencyKeys (unresolvedSuggestions ai)) \<and>
    enumerates iter2 (frequencyKeys (unresolvedSuggestions ai)) \<and>
    frequencyKeys (unresolvedSuggestions ai) \<noteq> {||}"
  then have "surgicalTarget ai iter2 = Some (Min (fset (targetPool ai)), ai)"
    by (simp add: surgicalTarget_deterministic)
  moreover from a have "surgicalTarget (ai\<lparr>rand := r\<rparr>) iter1 =
      Some (Min (fset (targetPool (ai\<lparr>rand := r\<rparr>))), ai\<lparr>rand := r\<rparr>)"
    by (intro surgicalTarget_deterministic) simp_all
  ultimately show "surgicalTarget (ai\<lparr>rand := r\<rparr>) iter1 =
        map_option (\<lambda>(t, a). (t, a\<lparr>rand := r\<rparr>)) (surgicalTarget ai iter2)"
    by simp
next
  assume "chooser ai = DeterministicChooser \<and>
    \<not> list_ex (\<lambda>c. c |\<notin>| hand ai \<and> cell (knowledge ai) c ''solution'' = StatusMaybe)
          (CardListForCategory (config ai) cat)"
  then show "pickUnknownCard (ai\<lparr>rand := r\<rparr>) cat =
        map_option (\<lambda>(c, a). (c, a\<lparr>rand := r\<rparr>)) (pickUnknownCard ai cat)"
    using pickUnknownCard_deterministic by blast
next
  assume "chooser ai = DeterministicChooser \<and>
    enumerates iter1 (frequencyKeys (unresolvedSuggestions ai)) \<and>
    enumerates iter2 (frequencyKeys (unresolvedSuggestions ai))"
  then show "SurgicalStrike_BuildSuggestion ai iter1 = SurgicalStrike_BuildSuggestion ai iter2"
    using SurgicalStrike_enumeration by blast
qed

lemma demoMysteries_enum2:
  "enumerates [''Rope'', ''Plum'', ''Hall'', ''Green''] (frequencyKeys (unresolvedSuggestions demoMysteries))"
  by code_simp

lemma demoSettled_picker:
  "chooser demoSettled = DeterministicChooser \<and>
   \<not> list_ex (\<lambda>c. c |\<notin>| hand demoSettled \<and> cell (knowledge demoSettled) c ''solution'' = StatusMaybe)
          (CardListForCategory (config demoSettled) CategorySuspect) \<and>
   map_option fst (pickUnknownCard demoSettled CategorySuspect) = Some ''Green''"
  by code_simp

theorem inference_independent_of_chooser_and_random_source_witness:
  "HandleEvent (demoBrain\<lparr>rand := oneRand, chooser := RandomChooser\<rparr>) (TurnResolved demoUndisproved)
     = Some (demoSolved\<lparr>rand := oneRand, chooser := RandomChooser\<rparr>) \<and>
   foldOpt markUnlessHeld [''Study'', ''Plum'', ''Wrench''] demoBrain
     = foldOpt markUnlessHeld [''Plum'', ''Wrench'', ''Study''] demoBrain \<and>
   surgicalTarget (demoMysteries\<lparr>rand := oneRand\<rparr>) [''Rope'', ''Plum'', ''Hall'', ''Green'']
     = Some (''Green'', demoMysteries\<lparr>rand := oneRand\<rparr>) \<and>
   map_option fst (pickUnknownCard (demoSettled\<lparr>rand := oneRand\<rparr>) CategorySuspect)
     = Some ''Green'' \<and>
   SurgicalStrike_BuildSuggestion demoMysteries [''Rope'', ''Plum'', ''Hall'', ''Green'']
     = SurgicalStrike_BuildSuggestion demoMysteries [''Green'', ''Hall'', ''Plum'', ''Rope'']"
proof -
  have ne: "frequencyKeys (unresolvedSuggestions demoMysteries) \<noteq> {||}"
    using demoMysteries_target by (auto simp: enumerates_def)
  have m: "Min (fset (targetPool demoMysteries)) = ''Green''"
    using demoMysteries_target by simp
  have t: "surgicalTarget demoMysteries [''Green'', ''Hall'', ''Plum'', ''Rope'']
      = Some (''Green'', demoMysteries)"
    using surgicalTarget_deterministic[OF _ _ ne, of "[''Green'', ''Hall'', ''Plum'', ''Rope'']"]
      demoMysteries_target m by simp
  from inference_independent_of_chooser_and_random_source[where ai = demoBrain and r = oneRand
      and ch = RandomChooser and e = "TurnResolved demoUndisproved"]
    demoSolved_eq
  have 1: "HandleEvent (demoBrain\<lparr>rand := oneRand, chooser := RandomChooser\<rparr>)
      (TurnResolved demoUndisproved) = Some (demoSolved\<lparr>rand := oneRand, chooser := RandomChooser\<rparr>)"
    by simp
  from inference_independent_of_chooser_and_random_source[where ai = demoBrain
      and cs' = "[''Study'', ''Plum'', ''Wrench'']" and cs = "[''Plum'', ''Wrench'', ''Study'']"]
  have 2: "foldOpt markUnlessHeld [''Study'', ''Plum'', ''Wrench''] demoBrain
     = foldOpt markUnlessHeld [''Plum'', ''Wrench'', ''Study''] demoBrain"
    by simp
  from inference_independent_of_chooser_and_random_source[where ai = demoMysteries and r = oneRand
      and ?iter1.0 = "[''Rope'', ''Plum'', ''Hall'', ''Green'']"
      and ?iter2.0 = "[''Green'', ''Hall'', ''Plum'', ''Rope'']"]
    demoMysteries_target demoMysteries_enum2 ne t
  have 3: "surgicalTarget (demoMysteries\<lparr>rand := oneRand\<rparr>) [''Rope'', ''Plum'', ''Hall'', ''Green'']
     = Some (''Green'', demoMysteries\<lparr>rand := oneRand\<rparr>)"
    and 5: "SurgicalStrike_BuildSuggestion demoMysteries [''Rope'', ''Plum'', ''Hall'', ''Green'']
     = SurgicalStrike_BuildSuggestion demoMysteries [''Green'', ''Hall'', ''Plum'', ''Rope'']"
    by simp_all
  from inference_independent_of_chooser_and_random_source[where ai = demoSettled and r = oneRand
      and cat = CategorySuspect] demoSettled_picker
  have "pickUnknownCard (demoSettled\<lparr>rand := oneRand\<rparr>) CategorySuspect =
      map_option (\<lambda>(c, a). (c, a\<lparr>rand := oneRand\<rparr>)) (pickUnknownCard demoSettled CategorySuspect)"
    by blast
  with demoSettled_picker
  have 4: "map_option fst (pickUnknownCard (demoSettled\<lparr>rand := oneRand\<rparr>) CategorySuspect)
     = Some ''Green''"
    by (cases "pickUnknownCard demoSettled CategorySuspect") auto
  from 1 2 3 4 5 show ?thesis by simp
qed

subsection \<open>The shuffle of the hand decides the suggestion\<close>

lemma SurgicalStrike_full_hand:
  assumes det: "chooser ai = DeterministicChooser"
    and en: "enumerates iter (frequencyKeys (unresolvedSuggestions ai))"
    and ne: "frequencyKeys (unresolvedSuggestions ai) \<noteq> {||}"
    and sh: "fst (Shuffle (rand ai) (Hand ai)) = hs"
    and full: "mapLen (fillFromHand (config ai) hs
                 [categoryOf (config ai) (Min (fset (targetPool ai))) \<mapsto> Min (fset (targetPool ai))]) = 3"
  shows "map_option fst (SurgicalStrike_BuildSuggestion ai iter) =
           Some (Some (fillFromHand (config ai) hs
                   [categoryOf (config ai) (Min (fset (targetPool ai))) \<mapsto> Min (fset (targetPool ai))]))"
proof -
  let ?t = "Min (fset (targetPool ai))"
  let ?a = "ai\<lparr>recentSurgicalTargets := Push (recentSurgicalTargets ai) ?t\<rparr>"
  from ne have len: "length (unresolvedSuggestions ai) \<noteq> 0"
    using frequencyKeys_Nil by auto
  from ne have pos: "fcard (frequencyKeys (unresolvedSuggestions ai)) > 0"
    by (metis fcard_0_eq gr0I)
  have st: "surgicalTarget ai iter = Some (?t, ai)"
    using det en ne by (rule surgicalTarget_deterministic)
  obtain r' where s: "Shuffle (rand ai) (Hand ai) = (hs, r')"
    using sh by (cases "Shuffle (rand ai) (Hand ai)") auto
  have h: "Hand ?a = Hand ai" by (simp add: Hand_def)
  from s full h have "buildSuggestionAroundTarget ?a ?t =
      Some (fillFromHand (config ai) hs [categoryOf (config ai) ?t \<mapsto> ?t], ?a\<lparr>rand := r'\<rparr>)"
    by (simp add: buildSuggestionAroundTarget_def Let_def)
  with len pos st show ?thesis by (simp add: SurgicalStrike_BuildSuggestion_def)
qed

lemma tableRun_zero: "tableRun zeroRand = Some tableMystery"
proof -
  let ?s = "Setup DeterministicChooser zeroRand tableConfig [''P1'', ''P2'', ''P3''] ''P1''"
  have rp: "rowsPresent ?s"
    unfolding tableConfig_def by (rule Setup_rowsPresent) (simp add: prepareConfig_dom)
  from ReceiveHand_total[OF rp] obtain a1 where
    a1: "ReceiveHand ?s [''Hall'', ''Rope'', ''Wrench''] = Some a1" by blast
  from viaMarks_rowsPresent[OF ReceiveHand_via[OF a1] rp] have "rowsPresent a1" .
  from HandleEvent_total[OF this] obtain a2 where
    "HandleEvent a1 (TurnResolved tableDisproval) = Some a2" by blast
  with a1 have "tableRun zeroRand = Some a2" by (simp add: tableRun_def)
  then show ?thesis by (simp add: tableMystery_def)
qed

lemma tableMystery_facts:
  "chooser tableMystery = DeterministicChooser \<and>
   Hand tableMystery = [''Hall'', ''Rope'', ''Wrench''] \<and>
   enumerates [''Green'', ''Knife'', ''Study''] (frequencyKeys (unresolvedSuggestions tableMystery)) \<and>
   targetPool tableMystery = {|''Green'', ''Knife'', ''Study''|}"
  by code_simp

lemma tableMystery_fill:
  "map (fillFromHand (config tableMystery) [''Hall'', ''Rope'', ''Wrench'']
          [categoryOf (config tableMystery) ''Green'' \<mapsto> ''Green'']) categories
     = [Some ''Green'', Some ''Rope'', Some ''Hall'']"
  "mapLen (fillFromHand (config tableMystery) [''Hall'', ''Rope'', ''Wrench'']
          [categoryOf (config tableMystery) ''Green'' \<mapsto> ''Green'']) = 3"
  "map (fillFromHand (config tableMystery) [''Hall'', ''Wrench'', ''Rope'']
          [categoryOf (config tableMystery) ''Green'' \<mapsto> ''Green'']) categories
     = [Some ''Green'', Some ''Wrench'', Some ''Hall'']"
  "mapLen (fillFromHand (config tableMystery) [''Hall'', ''Wrench'', ''Rope'']
          [categoryOf (config tableMystery) ''Green'' \<mapsto> ''Green'']) = 3"
  by code_simp+

lemma tableRun_source: "tableRun r = Some (tableMystery\<lparr>rand := r\<rparr>)"
proof -
  let ?s = "Setup DeterministicChooser zeroRand tableConfig [''P1'', ''P2'', ''P3''] ''P1''"
  let ?T = "\<lambda>a. a\<lparr>rand := r, chooser := DeterministicChooser\<rparr>"
  have s: "Setup DeterministicChooser r tableConfig [''P1'', ''P2'', ''P3''] ''P1'' = ?T ?s"
    by (simp add: Setup_def)
  have "tableRun r = map_option ?T (tableRun zeroRand)"
    unfolding tableRun_def s
    by (cases "ReceiveHand ?s [''Hall'', ''Rope'', ''Wrench'']")
       (simp_all add: ReceiveHand_indep processTurnEvent_indep)
  then have "tableRun r = Some (?T tableMystery)" by (simp add: tableRun_zero)
  moreover have "?T tableMystery = (tableMystery\<lparr>chooser := chooser tableMystery\<rparr>)\<lparr>rand := r\<rparr>"
    using tableMystery_facts by simp
  ultimately show ?thesis by simp
qed

lemma shuffle_ones:
  "fst (Shuffle onesRand [''Hall'', ''Rope'', ''Wrench'']) = [''Hall'', ''Rope'', ''Wrench'']"
  by (simp add: Shuffle_def onesRand_def int31n_def Uint32_def Int63_def)

lemma shuffle_half:
  "fst (Shuffle halfRand [''Hall'', ''Rope'', ''Wrench'']) = [''Hall'', ''Wrench'', ''Rope'']"
  by (simp add: Shuffle_def halfRand_def int31n_def Uint32_def Int63_def)

lemma table_suggestion:
  assumes "fst (Shuffle r [''Hall'', ''Rope'', ''Wrench'']) = hs"
    "mapLen (fillFromHand (config tableMystery) hs
       [categoryOf (config tableMystery) ''Green'' \<mapsto> ''Green'']) = 3"
  shows "map_option (\<lambda>(sg, a). map_option (\<lambda>s. map s categories) sg)
           (Option.bind (tableRun r)
              (\<lambda>a. SurgicalStrike_BuildSuggestion a [''Green'', ''Knife'', ''Study'']))
         = Some (Some (map (fillFromHand (config tableMystery) hs
                   [categoryOf (config tableMystery) ''Green'' \<mapsto> ''Green'']) categories))"
proof -
  let ?a = "tableMystery\<lparr>rand := r\<rparr>"
  have m: "Min (fset (targetPool ?a)) = ''Green''" using tableMystery_facts by simp
  have ne: "frequencyKeys (unresolvedSuggestions ?a) \<noteq> {||}"
    using tableMystery_facts by (auto simp: enumerates_def)
  have "map_option fst (SurgicalStrike_BuildSuggestion ?a [''Green'', ''Knife'', ''Study'']) =
      Some (Some (fillFromHand (config ?a) hs
        [categoryOf (config ?a) (Min (fset (targetPool ?a))) \<mapsto> Min (fset (targetPool ?a))]))"
  proof (rule SurgicalStrike_full_hand)
    show "chooser ?a = DeterministicChooser" using tableMystery_facts by simp
    show "enumerates [''Green'', ''Knife'', ''Study''] (frequencyKeys (unresolvedSuggestions ?a))"
      using tableMystery_facts by simp
    show "frequencyKeys (unresolvedSuggestions ?a) \<noteq> {||}" by (rule ne)
    show "fst (Shuffle (rand ?a) (Hand ?a)) = hs"
      using assms(1) tableMystery_facts by (simp add: Hand_def)
    show "mapLen (fillFromHand (config ?a) hs
        [categoryOf (config ?a) (Min (fset (targetPool ?a))) \<mapsto> Min (fset (targetPool ?a))]) = 3"
      unfolding m using assms(2) by simp
  qed
  then have "map_option fst (SurgicalStrike_BuildSuggestion ?a [''Green'', ''Knife'', ''Study'']) =
      Some (Some (fillFromHand (config tableMystery) hs
        [categoryOf (config tableMystery) ''Green'' \<mapsto> ''Green'']))"
    unfolding m by simp
  then show ?thesis
    by (cases "SurgicalStrike_BuildSuggestion ?a [''Green'', ''Knife'', ''Study'']")
       (auto simp: tableRun_source)
qed

text \<open>
  Claim C9 as stated fails. Two agents with the deterministic chooser are built with two
  random sources, are dealt the same hand (\<open>Hall\<close>, \<open>Rope\<close>, \<open>Wrench\<close>) and see the same
  event. Their Surgical Strike suggestions have the same target \<open>Green\<close> and differ in
  the weapon, \<open>Rope\<close> and \<open>Wrench\<close>: the hand supplies the weapon and the room, the
  unknown-card picker is not called, and the weapon is the one that the shuffle of the
  hand puts first. None of the numbers the two shuffles draw is drawn again by the
  library.
\<close>

theorem shuffle_decides_suggestion_counterexample:
  "map_option chooser (tableRun onesRand) = Some DeterministicChooser \<and>
   map_option chooser (tableRun halfRand) = Some DeterministicChooser \<and>
   map_option Hand (tableRun onesRand) = Some [''Hall'', ''Rope'', ''Wrench''] \<and>
   map_option Hand (tableRun halfRand) = Some [''Hall'', ''Rope'', ''Wrench''] \<and>
   map_option (\<lambda>(sg, a). map_option (\<lambda>s. map s categories) sg)
     (Option.bind (tableRun onesRand)
        (\<lambda>a. SurgicalStrike_BuildSuggestion a [''Green'', ''Knife'', ''Study'']))
     = Some (Some [Some ''Green'', Some ''Rope'', Some ''Hall'']) \<and>
   map_option (\<lambda>(sg, a). map_option (\<lambda>s. map s categories) sg)
     (Option.bind (tableRun halfRand)
        (\<lambda>a. SurgicalStrike_BuildSuggestion a [''Green'', ''Knife'', ''Study'']))
     = Some (Some [Some ''Green'', Some ''Wrench'', Some ''Hall'']) \<and>
   fst (Shuffle onesRand [''Hall'', ''Rope'', ''Wrench'']) = [''Hall'', ''Rope'', ''Wrench''] \<and>
   fst (Shuffle halfRand [''Hall'', ''Rope'', ''Wrench'']) = [''Hall'', ''Wrench'', ''Rope''] \<and>
   \<not> int31n_redraws 3 (fst (Uint32 onesRand)) \<and>
   \<not> int31n_redraws 2 (fst (Uint32 (snd (Uint32 onesRand)))) \<and>
   \<not> int31n_redraws 3 (fst (Uint32 halfRand)) \<and>
   \<not> int31n_redraws 2 (fst (Uint32 (snd (Uint32 halfRand))))"
proof -
  have c: "map_option chooser (tableRun r) = Some DeterministicChooser"
    and h: "map_option Hand (tableRun r) = Some [''Hall'', ''Rope'', ''Wrench'']" for r
    using tableMystery_facts by (simp_all add: tableRun_source Hand_def)
  have redraws: "\<not> int31n_redraws 3 (fst (Uint32 onesRand))"
    "\<not> int31n_redraws 2 (fst (Uint32 (snd (Uint32 onesRand))))"
    "\<not> int31n_redraws 3 (fst (Uint32 halfRand))"
    "\<not> int31n_redraws 2 (fst (Uint32 (snd (Uint32 halfRand))))"
    by (simp_all add: int31n_redraws_def Uint32_def Int63_def onesRand_def halfRand_def)
  have ones: "map_option (\<lambda>(sg, a). map_option (\<lambda>s. map s categories) sg)
     (Option.bind (tableRun onesRand)
        (\<lambda>a. SurgicalStrike_BuildSuggestion a [''Green'', ''Knife'', ''Study'']))
     = Some (Some [Some ''Green'', Some ''Rope'', Some ''Hall''])"
    by (rule table_suggestion[OF shuffle_ones tableMystery_fill(2), unfolded tableMystery_fill(1)])
  have half: "map_option (\<lambda>(sg, a). map_option (\<lambda>s. map s categories) sg)
     (Option.bind (tableRun halfRand)
        (\<lambda>a. SurgicalStrike_BuildSuggestion a [''Green'', ''Knife'', ''Study'']))
     = Some (Some [Some ''Green'', Some ''Wrench'', Some ''Hall''])"
    by (rule table_suggestion[OF shuffle_half tableMystery_fill(4), unfolded tableMystery_fill(3)])
  from c h ones half shuffle_ones shuffle_half redraws show ?thesis by blast
qed

end
